theory Spec2Isabelle
  imports Complex_Main "HOL-Library.AList" "HOL-Library.Char_ord" "HOL-Library.List_Lexorder"
    "HOL-Library.Multiset"
begin

section \<open>Python values, exceptions and dictionaries\<close>

text \<open>
  The scheduler of \<^verbatim>\<open>lmtp_scheduler.py\<close> works on decoded client messages: the values of
  a call's \<^verbatim>\<open>kwargs\<close> are what the wire decoder delivers. A value is \<^verbatim>\<open>None\<close>, a
  \<^verbatim>\<open>bool\<close>, an unbounded \<^verbatim>\<open>int\<close>, a \<^verbatim>\<open>float\<close> (a real number here: rounding and
  NaN are outside this development), a \<^verbatim>\<open>str\<close> (a byte string), a list of token ids, or a
  dictionary with string keys. A dictionary is an association list in insertion order.
\<close>

datatype pyval =
    VNone
  | VBool bool
  | VInt int
  | VFloat real
  | VStr string
  | VList "int list"
  | VDict "(string \<times> pyval) list"

text \<open>
  Exceptions, each with the text \<^verbatim>\<open>str(e)\<close> gives. \<open>InterruptedError\<close> is the
  cancellation signal; \<open>PyException\<close> stands for \<^verbatim>\<open>Exception\<close> itself and for any of
  its subclasses that is not listed, such as the ones a model backend raises.
\<close>

datatype exn =
    InterruptedError string
  | AssertionError string
  | ValueError string
  | TypeError string
  | IndexError string
  | KeyError string
  | AttributeError string
  | LMTPCannotLoadModelByPolicy string
  | PyException string

fun exn_str :: "exn \<Rightarrow> string" where
  "exn_str (InterruptedError m) = m"
| "exn_str (AssertionError m) = m"
| "exn_str (ValueError m) = m"
| "exn_str (TypeError m) = m"
| "exn_str (IndexError m) = m"
| "exn_str (KeyError m) = m"
| "exn_str (AttributeError m) = m"
| "exn_str (LMTPCannotLoadModelByPolicy m) = m"
| "exn_str (PyException m) = m"

text \<open>Truth value of a Python object, as \<^verbatim>\<open>if x\<close>, \<^verbatim>\<open>any\<close>, \<^verbatim>\<open>all\<close> and \<^verbatim>\<open>or\<close> test it.\<close>

fun truthy :: "pyval \<Rightarrow> bool" where
  "truthy VNone = False"
| "truthy (VBool b) = b"
| "truthy (VInt i) = (i \<noteq> 0)"
| "truthy (VFloat r) = (r \<noteq> 0)"
| "truthy (VStr s) = (s \<noteq> [])"
| "truthy (VList xs) = (xs \<noteq> [])"
| "truthy (VDict d) = (d \<noteq> [])"

text \<open>The number a numeric value stands for; \<^verbatim>\<open>bool\<close> is a subclass of \<^verbatim>\<open>int\<close>.\<close>

fun num_of :: "pyval \<Rightarrow> real option" where
  "num_of (VBool b) = Some (if b then 1 else 0)"
| "num_of (VInt i) = Some (of_int i)"
| "num_of (VFloat r) = Some r"
| "num_of _ = None"

text \<open>
  \<^verbatim>\<open>a > b\<close>: numbers compare by value, strings and lists lexicographically, anything else
  raises \<^verbatim>\<open>TypeError\<close>.
\<close>

definition py_gt :: "pyval \<Rightarrow> pyval \<Rightarrow> exn + bool" where
  "py_gt a b =
     (case (num_of a, num_of b) of
        (Some x, Some y) \<Rightarrow> Inr (y < x)
      | _ \<Rightarrow>
        (case (a, b) of
           (VStr s, VStr t) \<Rightarrow> Inr (t < s)
         | (VList s, VList t) \<Rightarrow> Inr (t < s)
         | _ \<Rightarrow> Inl (TypeError ''> not supported between these instances'')))"

text \<open>
  The builtin \<^verbatim>\<open>max\<close> over a sequence: the first element is the running maximum, a later
  element replaces it when it is greater; an empty sequence raises \<^verbatim>\<open>ValueError\<close>.
\<close>

fun py_max_from :: "pyval \<Rightarrow> pyval list \<Rightarrow> exn + pyval" where
  "py_max_from m [] = Inr m"
| "py_max_from m (x # xs) =
     (case py_gt x m of
        Inl e \<Rightarrow> Inl e
      | Inr b \<Rightarrow> py_max_from (if b then x else m) xs)"

definition py_max :: "pyval list \<Rightarrow> exn + pyval" where
  "py_max xs =
     (case xs of
        [] \<Rightarrow> Inl (ValueError ''max() arg is an empty sequence'')
      | x # r \<Rightarrow> py_max_from x r)"

text \<open>\<^verbatim>\<open>v + n\<close> for an integer \<open>n\<close>.\<close>

fun py_add_int :: "pyval \<Rightarrow> int \<Rightarrow> exn + pyval" where
  "py_add_int (VInt a) n = Inr (VInt (a + n))"
| "py_add_int (VBool b) n = Inr (VInt ((if b then 1 else 0) + n))"
| "py_add_int (VFloat r) n = Inr (VFloat (r + of_int n))"
| "py_add_int _ n = Inl (TypeError ''unsupported operand type(s) for +'')"

text \<open>Decimal digits of an integer, as \<^verbatim>\<open>str\<close> prints it.\<close>

fun nat_str :: "nat \<Rightarrow> string" where
  "nat_str n =
     (if n < 10 then [''0123456789'' ! n]
      else nat_str (n div 10) @ [''0123456789'' ! (n mod 10)])"

declare nat_str.simps [simp del]

text \<open>
  \<^verbatim>\<open>str(v)\<close>, which \<^verbatim>\<open>"{}-{}".format(k, v)\<close> applies. The text of a float, a list or a
  dictionary is left to the parameter \<open>repr\<close>.
\<close>

fun py_str :: "(pyval \<Rightarrow> string) \<Rightarrow> pyval \<Rightarrow> string" where
  "py_str repr VNone = ''None''"
| "py_str repr (VBool b) = (if b then ''True'' else ''False'')"
| "py_str repr (VInt i) = (if i < 0 then ''-'' @ nat_str (nat (- i)) else nat_str (nat i))"
| "py_str repr (VStr s) = s"
| "py_str repr v = repr v"

text \<open>\<^verbatim>\<open>sep.join(parts)\<close>.\<close>

fun join :: "string \<Rightarrow> string list \<Rightarrow> string" where
  "join sep [] = []"
| "join sep [x] = x"
| "join sep (x # y # ys) = x @ sep @ join sep (y # ys)"

text \<open>
  Dictionary operations on association lists: \<^verbatim>\<open>d.get(k, default)\<close>, \<^verbatim>\<open>d.pop(k, None)\<close>
  (which is \<^const>\<open>AList.delete\<close>), \<^verbatim>\<open>d.setdefault(k, v)\<close> and \<^verbatim>\<open>d[k] = v\<close> (which is
  \<^const>\<open>AList.update\<close>: the key keeps its place, a new key goes last).
\<close>

definition dict_get :: "('k \<times> 'v) list \<Rightarrow> 'k \<Rightarrow> 'v \<Rightarrow> 'v" where
  "dict_get d k dflt = (case map_of d k of None \<Rightarrow> dflt | Some v \<Rightarrow> v)"

definition setdefault :: "'k \<Rightarrow> 'v \<Rightarrow> ('k \<times> 'v) list \<Rightarrow> ('k \<times> 'v) list" where
  "setdefault k v d = (case map_of d k of None \<Rightarrow> d @ [(k, v)] | Some _ \<Rightarrow> d)"

text \<open>Running a list of fallible steps in order: the first exception ends the run.\<close>

fun sequence :: "('e + 'a) list \<Rightarrow> 'e + 'a list" where
  "sequence [] = Inr []"
| "sequence (x # xs) =
     (case x of
        Inl e \<Rightarrow> Inl e
      | Inr v \<Rightarrow> (case sequence xs of Inl e \<Rightarrow> Inl e | Inr vs \<Rightarrow> Inr (v # vs)))"

section \<open>GenerateCall\<close>

text \<open>
  A call carries its prompt (token ids), the logit bias as the client sent it, the residual
  keyword arguments of the client command, the client's stream id, the output queue of its
  session (named by a queue id) and the cancellation flag.
\<close>

record GenerateCall =
  prompt :: "int list"
  logit_bias :: pyval
  kwargs :: "(string \<times> pyval) list"
  stream_id :: pyval
  result_queue :: nat
  cancelled :: bool

definition is_score_call :: "GenerateCall \<Rightarrow> bool" where
  "is_score_call c = truthy (dict_get (kwargs c) ''score'' (VBool False))"

definition generation_mode :: "(pyval \<Rightarrow> string) \<Rightarrow> GenerateCall \<Rightarrow> string" where
  "generation_mode repr c =
     (if is_score_call c then ''score''
      else
        let key_args =
              setdefault ''temperature'' (VFloat 0)
                (AList.delete ''top_logprobs'' (AList.delete ''max_tokens'' (kwargs c)))
        in ''generate-'' @
           join ''-'' (map (\<lambda>(k, v). k @ ''-'' @ py_str repr v) (sort_key fst key_args)))"

section \<open>GenerateBatch\<close>

record GenerateBatch =
  input_ids :: "int list list"
  attention_mask :: "int list list"
  temperature :: pyval
  max_tokens :: pyval
  logit_biases :: "pyval list"
  calls :: "GenerateCall list"
  is_score :: bool
  scoring_offsets :: "pyval list option"
  batch_kwargs :: "(string \<times> pyval) list"

definition from_calls :: "GenerateCall list \<Rightarrow> exn + GenerateBatch" where
  "from_calls cs =
     (let ids = map prompt cs in
      if ids = [] then Inl (ValueError ''max() arg is an empty sequence'')
      else
        let max_len = Max (set (map length ids));
            mask = map (\<lambda>p. replicate (max_len - length p) 0 @ replicate (length p) 1) ids;
            padded = map (\<lambda>p. replicate (max_len - length p) 0 @ p) ids;
            temp = dict_get (kwargs (hd cs)) ''temperature'' (VFloat 0)
        in
        case py_max (map (\<lambda>c. dict_get (kwargs c) ''max_tokens'' (VInt 32)) cs) of
          Inl e \<Rightarrow> Inl e
        | Inr mt \<Rightarrow>
          let biases = map (\<lambda>c. if truthy (logit_bias c) then logit_bias c else VDict []) cs;
              sc = list_ex is_score_call cs
          in
          if sc \<and> \<not> list_all is_score_call cs
          then Inl (AssertionError ''cannot mix score and non-score calls in batch'')
          else
            case (if sc
                  then map_sum id Some
                         (sequence
                            (map (\<lambda>c. py_add_int (dict_get (kwargs c) ''scoring_offset'' (VInt 0))
                                        (int (max_len - length (prompt c)))) cs))
                  else Inr None) of
              Inl e \<Rightarrow> Inl e
            | Inr offs \<Rightarrow>
              Inr \<lparr> input_ids = padded, attention_mask = mask, temperature = temp,
                    max_tokens = mt, logit_biases = biases, calls = cs, is_score = sc,
                    scoring_offsets = offs,
                    batch_kwargs =
                      AList.delete ''temperature''
                        (AList.delete ''top_logprobs''
                           (AList.delete ''max_tokens'' (kwargs (hd cs)))) \<rparr>)"

definition batch_cancelled :: "GenerateBatch \<Rightarrow> bool" where
  "batch_cancelled b = (\<not> list_ex (\<lambda>c. \<not> cancelled c) (calls b))"
section \<open>Typing of the recognised options and example calls\<close>

text \<open>
  The data model types \<^verbatim>\<open>max_tokens\<close> and \<^verbatim>\<open>scoring_offset\<close> as integers. A call whose
  options are numbers never makes \<^verbatim>\<open>max\<close> or \<^verbatim>\<open>+\<close> raise \<^verbatim>\<open>TypeError\<close>.
\<close>

definition kwargs_typed :: "GenerateCall \<Rightarrow> bool" where
  "kwargs_typed c =
     (num_of (dict_get (kwargs c) ''max_tokens'' (VInt 32)) \<noteq> None \<and>
      num_of (dict_get (kwargs c) ''scoring_offset'' (VInt 0)) \<noteq> None)"

definition Lmax :: "GenerateCall list \<Rightarrow> nat" where
  "Lmax cs = Max (set (map (\<lambda>c. length (prompt c)) cs))"

definition call_a :: GenerateCall where
  "call_a = \<lparr>prompt = [1, 2], logit_bias = VDict [], kwargs = [(''max_tokens'', VInt 3)],
            stream_id = VInt 1, result_queue = 0, cancelled = False\<rparr>"

definition call_b :: GenerateCall where
  "call_b = \<lparr>prompt = [1, 2, 3], logit_bias = VDict [],
            kwargs = [(''top_logprobs'', VInt 2), (''max_tokens'', VInt 5)],
            stream_id = VInt 2, result_queue = 1, cancelled = False\<rparr>"

definition score_a :: GenerateCall where
  "score_a = \<lparr>prompt = [7, 8], logit_bias = VDict [],
       kwargs = [(''score'', VBool True), (''scoring_offset'', VInt 1)],
       stream_id = VInt 1, result_queue = 0, cancelled = False\<rparr>"

definition score_b :: GenerateCall where
  "score_b = \<lparr>prompt = [7, 8, 9], logit_bias = VDict [],
       kwargs = [(''temperature'', VFloat 1), (''score'', VInt 1), (''scoring_offset'', VInt 2)],
       stream_id = VInt 2, result_queue = 0, cancelled = False\<rparr>"

section \<open>Output queues and payloads\<close>

text \<open>
  A session's output queue receives pairs of a message type and a payload dictionary. The
  payload dictionaries the scheduler and the session build have four shapes: a token, an
  error, a model description and a message. \<^verbatim>\<open>ScoreStreamer\<close> builds a token payload with
  no \<^verbatim>\<open>top_logprobs\<close> key, \<^verbatim>\<open>TokenStreamer\<close> one with it.
\<close>

datatype msg_type = TOKEN | MSG

datatype payload =
    Token int pyval real "string option" "(int \<times> real) list option"
  | Error pyval string
  | ModelInfo pyval string
  | Message pyval string

fun payload_stream_id :: "payload \<Rightarrow> pyval" where
  "payload_stream_id (Token t sid lp fr tops) = sid"
| "payload_stream_id (Error sid m) = sid"
| "payload_stream_id (ModelInfo sid m) = sid"
| "payload_stream_id (Message sid m) = sid"

fun is_error :: "msg_type \<times> payload \<Rightarrow> bool" where
  "is_error (ty, Error sid m) = True"
| "is_error (ty, p) = False"

text \<open>The queues of all sessions, by queue id; a queue is the list of its messages, oldest first.\<close>

type_synonym queues = "nat \<Rightarrow> (msg_type \<times> payload) list"

definition enqueue :: "nat \<Rightarrow> msg_type \<times> payload \<Rightarrow> queues \<Rightarrow> queues" where
  "enqueue q m qs = qs(q := qs q @ [m])"

definition call_put :: "GenerateCall \<Rightarrow> payload \<Rightarrow> queues \<Rightarrow> queues" where
  "call_put c token qs = enqueue (result_queue c) (TOKEN, token) qs"

definition cancel :: "GenerateCall \<Rightarrow> GenerateCall" where
  "cancel c = c\<lparr>cancelled := True\<rparr>"

definition call_error :: "GenerateCall \<Rightarrow> string \<Rightarrow> queues \<Rightarrow> queues" where
  "call_error c m qs = enqueue (result_queue c) (TOKEN, Error (stream_id c) m) qs"

section \<open>Indexing and slicing\<close>

text \<open>\<^verbatim>\<open>xs[i]\<close>: a negative index counts from the end, an index out of range raises.\<close>

definition py_index :: "'a list \<Rightarrow> int \<Rightarrow> exn + 'a" where
  "py_index xs i =
     (if 0 \<le> i \<and> i < int (length xs) then Inr (xs ! nat i)
      else if i < 0 \<and> - int (length xs) \<le> i then Inr (xs ! nat (int (length xs) + i))
      else Inl (IndexError ''index out of range''))"

text \<open>
  \<^verbatim>\<open>xs[start:]\<close>: an integer start is clamped to the list, a negative one counts from the
  end, \<^verbatim>\<open>None\<close> is the whole list, anything that is no index raises \<^verbatim>\<open>TypeError\<close>.
\<close>

fun py_slice_from :: "pyval \<Rightarrow> 'a list \<Rightarrow> exn + 'a list" where
  "py_slice_from (VInt i) xs =
     Inr (if i < 0 then drop (nat (int (length xs) + i)) xs else drop (nat i) xs)"
| "py_slice_from (VBool b) xs = Inr (drop (if b then 1 else 0) xs)"
| "py_slice_from VNone xs = Inr xs"
| "py_slice_from v xs = Inl (TypeError ''slice indices must be integers or None'')"

text \<open>\<^verbatim>\<open>xs[:stop]\<close>, likewise.\<close>

fun py_slice_to :: "pyval \<Rightarrow> 'a list \<Rightarrow> exn + 'a list" where
  "py_slice_to (VInt i) xs =
     Inr (if i < 0 then take (nat (int (length xs) + i)) xs else take (nat i) xs)"
| "py_slice_to (VBool b) xs = Inr (take (if b then 1 else 0) xs)"
| "py_slice_to VNone xs = Inr xs"
| "py_slice_to v xs = Inl (TypeError ''slice indices must be integers or None'')"

text \<open>
  A \<^verbatim>\<open>for i in range(n)\<close> loop whose body may raise: the rows run in order on the queues,
  and the first exception ends the loop with the queues as they are by then.
\<close>

fun for_rows ::
  "(nat \<Rightarrow> queues \<Rightarrow> exn option \<times> queues) \<Rightarrow> nat list \<Rightarrow> queues \<Rightarrow> exn option \<times> queues"
where
  "for_rows body [] qs = (None, qs)"
| "for_rows body (i # rest) qs =
     (case body i qs of
        (Some e, qs') \<Rightarrow> (Some e, qs')
      | (None, qs') \<Rightarrow> for_rows body rest qs')"

section \<open>ScoreStreamer\<close>

text \<open>
  The payloads of one row's inner loop: the pairs of \<^verbatim>\<open>zip(scores, scored_ids)\<close>, numbered
  by \<^verbatim>\<open>enumerate\<close>; the finish reason is \<^verbatim>\<open>"stop"\<close> where \<^verbatim>\<open>j == len(scores) - 1\<close>.
\<close>

definition score_payloads :: "GenerateCall \<Rightarrow> real list \<Rightarrow> int list \<Rightarrow> payload list" where
  "score_payloads call scores scored_ids =
     map (\<lambda>(j, score, token).
            Token token (stream_id call) score
              (if int j = int (length scores) - 1 then Some ''stop'' else None) None)
       (zip [0..<length (zip scores scored_ids)] (zip scores scored_ids))"

definition score_row ::
  "GenerateBatch \<Rightarrow> real list list \<Rightarrow> nat \<Rightarrow> queues \<Rightarrow> exn option \<times> queues"
where
  "score_row b all_scores i qs =
     (case scoring_offsets b of
        None \<Rightarrow> (Some (TypeError ''NoneType object is not subscriptable''), qs)
      | Some offs \<Rightarrow>
        (case py_index offs (int i) of
           Inl e \<Rightarrow> (Some e, qs)
         | Inr offset \<Rightarrow>
           (case py_slice_from offset (all_scores ! i) of
              Inl e \<Rightarrow> (Some e, qs)
            | Inr scores \<Rightarrow>
              (case py_index (input_ids b) (int i) of
                 Inl e \<Rightarrow> (Some e, qs)
               | Inr ids \<Rightarrow>
                 (case py_slice_from offset ids of
                    Inl e \<Rightarrow> (Some e, qs)
                  | Inr scored_ids \<Rightarrow>
                    (case py_index (calls b) (int i) of
                       Inl e \<Rightarrow> (Some e, qs)
                     | Inr call \<Rightarrow>
                       (None, fold (call_put call) (score_payloads call scores scored_ids) qs)))))))"

text \<open>
  \<^verbatim>\<open>ScoreStreamer.log_token(batch, all_scores)\<close>; the batch size is the number of rows of the
  score tensor, so \<^verbatim>\<open>all_scores[i]\<close> is in range for every row of the loop.
\<close>

definition ScoreStreamer_log_token ::
  "GenerateBatch \<Rightarrow> real list list \<Rightarrow> queues \<Rightarrow> exn option \<times> queues"
where
  "ScoreStreamer_log_token b all_scores qs =
     for_rows (score_row b all_scores) [0..<length all_scores] qs"

section \<open>TokenStreamer\<close>

text \<open>
  Modelled from the spec: \<^verbatim>\<open>lmql.utils.nputil.topk\<close>, which is not among the sources. The
  spec has the streamer "run a top-k selection (\<open>k = max_top\<close>) over each row's vocab
  distribution": for each row the \<open>k\<close> largest scores, largest first, and their indices. A
  \<open>k\<close> that is no count raises.
\<close>

definition topk_row :: "real list \<Rightarrow> nat \<Rightarrow> real list \<times> nat list" where
  "topk_row scores k =
     (let idx = take k (sort_key (\<lambda>i. - (scores ! i)) [0..<length scores])
      in (map (\<lambda>i. scores ! i) idx, idx))"

definition topk :: "real list list \<Rightarrow> pyval \<Rightarrow> exn + (real list list \<times> nat list list)" where
  "topk m k =
     (case k of
        VInt n \<Rightarrow>
          if n < 0 then Inl (ValueError ''k must not be negative'')
          else Inr (map (\<lambda>r. fst (topk_row r (nat n))) m, map (\<lambda>r. snd (topk_row r (nat n))) m)
      | VBool b \<Rightarrow>
          Inr (map (\<lambda>r. fst (topk_row r (if b then 1 else 0))) m,
               map (\<lambda>r. snd (topk_row r (if b then 1 else 0))) m)
      | _ \<Rightarrow> Inl (TypeError ''k must be an integer''))"

text \<open>
  A dictionary display and a dictionary comprehension insert their items in order: a key
  that comes again keeps its place and takes the later value.
\<close>

definition dict_of :: "('k \<times> 'v) list \<Rightarrow> ('k \<times> 'v) list" where
  "dict_of items = fold (\<lambda>(k, v). AList.update k v) items []"

definition dict_merge :: "('k \<times> 'v) list \<Rightarrow> ('k \<times> 'v) list \<Rightarrow> ('k \<times> 'v) list" where
  "dict_merge d extra = fold (\<lambda>(k, v). AList.update k v) extra d"

record TokenStreamer =
  ts_batch :: GenerateBatch
  ts_cancels :: bool
  ts_eos_token_id :: int

text \<open>
  The body of the loop over the rows of \<^verbatim>\<open>TokenStreamer.log_token\<close>. The dictionary
  \<^verbatim>\<open>top_logprobs\<close> is built from the row of the batch-wide top-k before that row is sliced
  to the call's own \<^verbatim>\<open>top_logprobs\<close>; the sliced \<^verbatim>\<open>logprobs\<close> and \<^verbatim>\<open>tokens\<close> are not
  read again.
\<close>

definition token_row ::
  "TokenStreamer \<Rightarrow> bool \<Rightarrow> int list \<Rightarrow> real list list \<Rightarrow> real list list \<Rightarrow> nat list list \<Rightarrow>
   nat \<Rightarrow> queues \<Rightarrow> exn option \<times> queues"
where
  "token_row s lst last_tokens last_scores all_logprobs all_indices i qs =
     (case py_index all_logprobs (int i) of
        Inl e \<Rightarrow> (Some e, qs)
      | Inr logprobs \<Rightarrow>
        (case py_index all_indices (int i) of
           Inl e \<Rightarrow> (Some e, qs)
         | Inr tokens \<Rightarrow>
           (case py_index last_scores (int i) of
              Inl e \<Rightarrow> (Some e, qs)
            | Inr row \<Rightarrow>
              (case py_index row (last_tokens ! i) of
                 Inl e \<Rightarrow> (Some e, qs)
               | Inr token_score \<Rightarrow>
                 (let top_logprobs =
                        dict_merge [(last_tokens ! i, token_score)]
                          (dict_of (map (\<lambda>(logprob, token). (int token, logprob))
                                      (zip logprobs tokens)))
                  in
                  case py_index (calls (ts_batch s)) (int i) of
                    Inl e \<Rightarrow> (Some e, qs)
                  | Inr call \<Rightarrow>
                    (let num_top_logprobs = dict_get (kwargs call) ''top_logprobs'' (VInt 1) in
                     case py_slice_to num_top_logprobs logprobs of
                       Inl e \<Rightarrow> (Some e, qs)
                     | Inr logprobs' \<Rightarrow>
                       (case py_slice_to num_top_logprobs tokens of
                          Inl e \<Rightarrow> (Some e, qs)
                        | Inr tokens' \<Rightarrow>
                          (None,
                           call_put call
                             (Token (last_tokens ! i) (stream_id call) token_score
                                (if last_tokens ! i = ts_eos_token_id s then Some ''stop''
                                 else if lst then Some ''length'' else None)
                                (Some top_logprobs)) qs))))))))"

text \<open>The last column of the token matrix, \<^verbatim>\<open>input_ids[:, -1]\<close>.\<close>

definition last_column :: "int list list \<Rightarrow> exn + int list" where
  "last_column m = sequence (map (\<lambda>r. py_index r (- 1)) m)"

text \<open>
  \<^verbatim>\<open>TokenStreamer.log_token(input_ids, scores, last)\<close>. The rate meter of the scheduler
  (\<^verbatim>\<open>measure_token\<close>: clock readings, floating-point averages and a console line) never
  raises and touches no queue; it is left out.
\<close>

definition TokenStreamer_log_token ::
  "TokenStreamer \<Rightarrow> int list list \<Rightarrow> real list list list \<Rightarrow> bool \<Rightarrow> queues \<Rightarrow> exn option \<times> queues"
where
  "TokenStreamer_log_token s inp scores lst qs =
     (let batch_size = length inp in
      case last_column inp of
        Inl e \<Rightarrow> (Some e, qs)
      | Inr last_tokens \<Rightarrow>
        (case py_index scores (- 1) of
           Inl e \<Rightarrow> (Some e, qs)
         | Inr last_scores \<Rightarrow>
           (case py_max (map (\<lambda>c. dict_get (kwargs c) ''top_logprobs'' (VInt 1))
                          (calls (ts_batch s))) of
              Inl e \<Rightarrow> (Some e, qs)
            | Inr max_num_top_logprobs \<Rightarrow>
              if batch_cancelled (ts_batch s) \<and> ts_cancels s
              then (Some (InterruptedError ''inference calls cancelled''), qs)
              else
                (case topk last_scores max_num_top_logprobs of
                   Inl e \<Rightarrow> (Some e, qs)
                 | Inr (all_logprobs, all_indices) \<Rightarrow>
                   for_rows (token_row s lst last_tokens last_scores all_logprobs all_indices)
                     [0..<batch_size] qs))))"

section \<open>Scheduler\<close>

text \<open>
  The state of a scheduler object. \<open>sync\<close> is the constructor's flag: only a scheduler
  built with \<^verbatim>\<open>sync=False\<close> gets the attribute \<^verbatim>\<open>worker_thread\<close>. \<open>users\<close> holds the
  session handles (each session is named by a number), \<open>last_use\<close> a clock reading.
\<close>

record Scheduler =
  model_identifier :: string
  model_args :: "(string \<times> pyval) list"
  queue :: "GenerateCall list"
  kill_event :: bool
  sync :: bool
  users :: "nat set"
  last_use :: real
  model_info :: string

text \<open>\<^verbatim>\<open>Scheduler.__init__\<close>; \<open>now\<close> is what \<^verbatim>\<open>time.time()\<close> returns.\<close>

definition Scheduler_init ::
  "string \<Rightarrow> (string \<times> pyval) list option \<Rightarrow> bool \<Rightarrow> real \<Rightarrow> Scheduler"
where
  "Scheduler_init ident args sy now =
     \<lparr> model_identifier = ident,
       model_args = (case args of None \<Rightarrow> [] | Some a \<Rightarrow> a),
       queue = [], kill_event = False, sync = sy, users = {}, last_use = now,
       model_info = ''<unavailable>'' \<rparr>"

definition put :: "GenerateCall \<Rightarrow> Scheduler \<Rightarrow> Scheduler" where
  "put call s = s\<lparr>queue := queue s @ [call]\<rparr>"

definition unregister :: "nat \<Rightarrow> real \<Rightarrow> Scheduler \<Rightarrow> Scheduler" where
  "unregister user now s =
     (if user \<in> users s then s\<lparr>users := users s - {user}, last_use := now\<rparr> else s)"

subsection \<open>Batch assembly\<close>

text \<open>
  The collection loop of \<^verbatim>\<open>Scheduler.batches\<close> takes one call from the queue per turn
  until the 0.1 s window has passed or the queue is empty. \<open>window\<close> is the number of
  turns the clock allows; the queue is read as it stands when the loop starts.
\<close>

definition drain :: "nat \<Rightarrow> GenerateCall list \<Rightarrow> GenerateCall list \<times> GenerateCall list" where
  "drain window q = (take window q, drop window q)"

text \<open>\<^verbatim>\<open>batches_by_mode.setdefault(mode, []).append(c)\<close> for each call, in order.\<close>

definition group_by_mode ::
  "(pyval \<Rightarrow> string) \<Rightarrow> GenerateCall list \<Rightarrow> (string \<times> GenerateCall list) list"
where
  "group_by_mode repr cs =
     fold (\<lambda>c d. AList.update (generation_mode repr c)
                    (dict_get d (generation_mode repr c) [] @ [c]) d) cs []"

text \<open>The slices \<^verbatim>\<open>xs[i:i+n]\<close> for \<^verbatim>\<open>i in range(0, len(xs), n)\<close>, for a positive \<open>n\<close>.\<close>

function chunks :: "nat \<Rightarrow> 'a list \<Rightarrow> 'a list list" where
  "chunks n xs = (if n = 0 \<or> xs = [] then [] else take n xs # chunks n (drop n xs))"
  by pat_completeness auto
termination
  by (relation "measure (\<lambda>(n, xs). length xs)") auto

declare chunks.simps [simp del]

text \<open>
  One group of the splitting loop. A step of zero makes \<^verbatim>\<open>range\<close> raise; a negative
  step gives an empty range, so nothing is appended.
\<close>

definition split_batch :: "int \<Rightarrow> GenerateCall list \<Rightarrow> exn + GenerateCall list list" where
  "split_batch mbs grp =
     (if mbs < int (length grp) then
        (if mbs = 0 then Inl (ValueError ''range() arg 3 must not be zero'')
         else if mbs < 0 then Inr []
         else Inr (chunks (nat mbs) grp))
      else Inr [grp])"

definition batches ::
  "(pyval \<Rightarrow> string) \<Rightarrow> nat \<Rightarrow> int \<Rightarrow> Scheduler \<Rightarrow> (exn + GenerateCall list list) \<times> Scheduler"
where
  "batches repr window mbs s =
     (let cs = fst (drain window (queue s));
          batches_by_mode = group_by_mode repr cs
      in (map_sum id concat (sequence (map (\<lambda>(mode, b). split_batch mbs b) batches_by_mode)),
          s\<lparr>queue := snd (drain window (queue s))\<rparr>))"

subsection \<open>Running a batch\<close>

text \<open>
  The model backend is outside the sources. What it receives, \<^verbatim>\<open>generate_args()\<close>, is a
  function of the batch, so \<open>score\<close> and \<open>generate\<close> are functions of the batch here.
  \<open>score\<close> returns the score tensor or raises. \<open>generate\<close> is given by what the backend
  does with the streamer: the arguments of its calls of the streamer, in order, and then
  the result (sequences and scores) or the exception it ends with. An exception the
  streamer raises in one of these calls leaves \<^verbatim>\<open>generate\<close> at once.
\<close>

record Backend =
  max_batch_size :: int
  eos_token_id :: int
  cancellable :: bool
  score :: "GenerateBatch \<Rightarrow> exn + real list list"
  generate ::
    "GenerateBatch \<Rightarrow>
       (int list list \<times> real list list list) list \<times>
       (exn + int list list \<times> real list list list)"

fun run_steps ::
  "TokenStreamer \<Rightarrow> (int list list \<times> real list list list) list \<Rightarrow> queues \<Rightarrow> exn option \<times> queues"
where
  "run_steps st [] qs = (None, qs)"
| "run_steps st ((ids, scores) # rest) qs =
     (case TokenStreamer_log_token st ids scores False qs of
        (Some e, qs') \<Rightarrow> (Some e, qs')
      | (None, qs') \<Rightarrow> run_steps st rest qs')"

text \<open>The body of the \<^verbatim>\<open>try\<close> statement of \<^verbatim>\<open>process_batch\<close>, for one batch.\<close>

definition batch_body :: "Backend \<Rightarrow> GenerateCall list \<Rightarrow> queues \<Rightarrow> exn option \<times> queues" where
  "batch_body model batch qs =
     (case from_calls batch of
        Inl e \<Rightarrow> (Some e, qs)
      | Inr b \<Rightarrow>
        if is_score b then
          (case score model b of
             Inl e \<Rightarrow> (Some e, qs)
           | Inr scores \<Rightarrow> ScoreStreamer_log_token b scores qs)
        else
          (let streamer = \<lparr>ts_batch = b, ts_cancels = cancellable model,
                           ts_eos_token_id = eos_token_id model\<rparr>
           in case run_steps streamer (fst (generate model b)) qs of
                (Some e, qs') \<Rightarrow> (Some e, qs')
              | (None, qs') \<Rightarrow>
                (case snd (generate model b) of
                   Inl e \<Rightarrow> (Some e, qs')
                 | Inr (sequences, scores) \<Rightarrow>
                   TokenStreamer_log_token streamer sequences scores True qs')))"

text \<open>The text \<^verbatim>\<open>"failed to generate tokens '" + str(e) + "'"\<close>.\<close>

definition failure_text :: "exn \<Rightarrow> string" where
  "failure_text e = ''failed to generate tokens '' @ [CHR 0x27] @ exn_str e @ [CHR 0x27]"

text \<open>
  The \<^verbatim>\<open>try\<close> statement with its two handlers: \<^verbatim>\<open>InterruptedError\<close> first, then any
  other \<^verbatim>\<open>Exception\<close>.
\<close>

definition run_batch :: "Backend \<Rightarrow> GenerateCall list \<Rightarrow> queues \<Rightarrow> queues" where
  "run_batch model batch qs =
     (case batch_body model batch qs of
        (None, qs') \<Rightarrow> qs'
      | (Some (InterruptedError m), qs') \<Rightarrow> fold (\<lambda>c. call_error c ''lmtp.cancelled'') batch qs'
      | (Some e, qs') \<Rightarrow> fold (\<lambda>c. call_error c (failure_text e)) batch qs')"

text \<open>
  \<^verbatim>\<open>Scheduler.process_batch\<close>: \<^verbatim>\<open>self.batches\<close> is called outside the \<^verbatim>\<open>try\<close>, so what it
  raises leaves the method; the batches then run in order.
\<close>

definition process_batch ::
  "(pyval \<Rightarrow> string) \<Rightarrow> nat \<Rightarrow> Backend \<Rightarrow> Scheduler \<Rightarrow> queues \<Rightarrow> exn option \<times> Scheduler \<times> queues"
where
  "process_batch repr window model s qs =
     (case batches repr window (max_batch_size model) s of
        (Inl e, s') \<Rightarrow> (Some e, s', qs)
      | (Inr bs, s') \<Rightarrow> (None, s', fold (run_batch model) bs qs))"

section \<open>The registry of schedulers\<close>

text \<open>
  \<^verbatim>\<open>Scheduler._instances\<close> is a dictionary from identifiers to schedulers; an identifier is
  the pair of the model identifier and \<^verbatim>\<open>pickle.dumps(model_args).hex()\<close>. The registry
  operations take that encoding of the arguments as the parameter \<open>enc\<close>. A scheduler object
  is held by the registry; its identifier is the handle on it.
\<close>

type_synonym registry_key = "string \<times> string"
type_synonym instances = "(registry_key \<times> Scheduler) list"
type_synonym encoding = "(string \<times> pyval) list option \<Rightarrow> string"

text \<open>
  \<^verbatim>\<open>dealloc\<close>: the identifier is computed again from the scheduler's own fields and popped
  (a missing key raises), the kill event is set, and the worker thread is joined: a
  scheduler built with \<^verbatim>\<open>sync=True\<close> has no attribute \<^verbatim>\<open>worker_thread\<close>.
\<close>

definition dealloc :: "encoding \<Rightarrow> Scheduler \<Rightarrow> instances \<Rightarrow> exn option \<times> instances" where
  "dealloc enc s insts =
     (let ident = (model_identifier s, enc (Some (model_args s))) in
      case map_of insts ident of
        None \<Rightarrow> (Some (KeyError ''identifier''), insts)
      | Some popped \<Rightarrow>
        if sync s
        then (Some (AttributeError ''Scheduler object has no attribute worker_thread''),
              AList.delete ident insts)
        else (None, AList.delete ident insts))"

fun gc_loop :: "encoding \<Rightarrow> registry_key list \<Rightarrow> instances \<Rightarrow> exn option \<times> instances" where
  "gc_loop enc [] insts = (None, insts)"
| "gc_loop enc (k # ks) insts =
     (case map_of insts k of
        None \<Rightarrow> (Some (KeyError ''identifier''), insts)
      | Some s \<Rightarrow>
        (case dealloc enc s insts of
           (Some e, insts') \<Rightarrow> (Some e, insts')
         | (None, insts') \<Rightarrow> gc_loop enc ks insts'))"

definition gc :: "encoding \<Rightarrow> int \<Rightarrow> instances \<Rightarrow> exn option \<times> instances" where
  "gc enc n insts =
     (let total = int (length insts);
          not_needed = map fst (filter (\<lambda>(k, v). users v = {}) insts)
      in if n \<le> total then gc_loop enc not_needed insts else (None, insts))"

text \<open>
  \<^verbatim>\<open>Scheduler.instance\<close>; it returns the identifier of the scheduler, or the exception the
  lookup or the collection raised, and the registry as it is left.
\<close>

definition policy_text :: "string \<Rightarrow> string" where
  "policy_text ident =
     ''Model '' @ [CHR 0x27] @ ident @ [CHR 0x27] @
     '' is not loaded and server is not configured to load it on demand.''"

definition "instance" ::
  "encoding \<Rightarrow> real \<Rightarrow> string \<Rightarrow> (string \<times> pyval) list option \<Rightarrow> nat option \<Rightarrow> bool \<Rightarrow> bool \<Rightarrow>
   instances \<Rightarrow> (exn + registry_key) \<times> instances"
where
  "instance enc now ident args user only_existing sy insts =
     (let identifier = (ident, enc args) in
      if map_of insts identifier = None \<and> only_existing
      then (Inl (LMTPCannotLoadModelByPolicy (policy_text ident)), insts)
      else
        let insts1 = (if map_of insts identifier = None
                      then AList.update identifier (Scheduler_init ident args sy now) insts
                      else insts);
            insts2 = AList.map_entry identifier
                       (\<lambda>s. s\<lparr>last_use := now,
                               users := (case user of None \<Rightarrow> users s
                                         | Some u \<Rightarrow> insert u (users s))\<rparr>) insts1
        in case gc enc 2 insts2 of
             (Some e, insts3) \<Rightarrow> (Inl e, insts3)
           | (None, insts3) \<Rightarrow> (Inr identifier, insts3))"

section \<open>TokenSession\<close>









section \<open>The encoding of model arguments\<close>

text \<open>
  \<^verbatim>\<open>pickle.dumps(model_args).hex()\<close> is library code. It is followed here for protocol 4
  (the default of \<^verbatim>\<open>pickle.dumps\<close>) on the argument sets whose encoding depends on the
  values alone: \<^verbatim>\<open>None\<close>, or a dictionary of fewer than 1000 items whose keys are strings
  shorter than 256 bytes and whose values are \<^verbatim>\<open>None\<close>, booleans, integers of the signed
  32-bit range or such strings, all strings different from each other (the pickler
  writes a back reference for an object it meets again, and which equal strings are one
  object is not a matter of their values), the whole within one frame. These are the
  \<open>plain\<close> argument sets; for another one \<open>pickle_dumps\<close> returns \<open>None\<close>. A byte is a
  number below 256.
\<close>





















section \<open>An example registry\<close>

text \<open>
  Two schedulers built with \<^verbatim>\<open>sync=True\<close> for the session 7, through \<open>instance\<close>, and
  then unregistered by it.
\<close>

definition sync_registry :: "encoding \<Rightarrow> instances" where
  "sync_registry enc =
     (let insts1 = snd (instance enc 1 ''a'' (Some []) (Some 7) False True []);
          insts2 = snd (instance enc 2 ''b'' (Some []) (Some 7) False True insts1)
      in map (\<lambda>(k, s). (k, unregister 7 3 s)) insts2)"

text \<open>
  A registry of schedulers that run their own worker thread, each under the identifier
  computed from its own fields, no identifier twice.
\<close>

definition registry_consistent :: "encoding \<Rightarrow> instances \<Rightarrow> bool" where
  "registry_consistent enc insts =
     (distinct (map fst insts) \<and>
      list_all (\<lambda>(k, s). k = (model_identifier s, enc (Some (model_args s))) \<and> \<not> sync s) insts)"

section \<open>Routing of payloads\<close>

text \<open>\<open>token_of c p\<close>: the payload \<open>p\<close> is a token payload with the stream id of the call \<open>c\<close>.\<close>

definition token_of :: "GenerateCall \<Rightarrow> payload \<Rightarrow> bool" where
  "token_of c p =
     (case p of Token t sid lp fr tops \<Rightarrow> sid = stream_id c | _ \<Rightarrow> False)"

text \<open>
  \<open>routed cs qs qs'\<close>: the queues \<open>qs'\<close> are the queues \<open>qs\<close> with messages appended, and
  every message appended to a queue is a \<^verbatim>\<open>TOKEN\<close> message with a token payload that
  carries the stream id of a call of \<open>cs\<close> whose output queue it is.
\<close>

definition routed :: "GenerateCall list \<Rightarrow> queues \<Rightarrow> queues \<Rightarrow> bool" where
  "routed cs qs qs' =
     (\<forall>q. \<exists>ms. qs' q = qs q @ ms \<and>
        (\<forall>m\<in>set ms. \<exists>i<length cs.
           result_queue (cs ! i) = q \<and> fst m = TOKEN \<and>
           token_of (cs ! i) (snd m)))"

text \<open>An example generation batch, the batch of \<open>call_a\<close> and \<open>call_b\<close>, and its streamer.\<close>

definition gen_batch :: GenerateBatch where
  "gen_batch = \<lparr>input_ids = [[0, 1, 2], [1, 2, 3]], attention_mask = [[0, 1, 1], [1, 1, 1]],
     temperature = VFloat 0, max_tokens = VInt 5, logit_biases = [VDict [], VDict []],
     calls = [call_a, call_b], is_score = False, scoring_offsets = None, batch_kwargs = []\<rparr>"

definition gen_streamer :: TokenStreamer where
  "gen_streamer = \<lparr>ts_batch = gen_batch, ts_cancels = True, ts_eos_token_id = 2\<rparr>"

definition no_messages :: queues where
  "no_messages = (\<lambda>q. [])"

section \<open>Grouping by mode, and example schedulers\<close>

text \<open>
  \<open>grouped f d\<close>: every group of the dictionary \<open>d\<close> is non-empty and holds calls whose
  key under \<open>f\<close> is the key of the group.
\<close>

definition grouped :: "(GenerateCall \<Rightarrow> string) \<Rightarrow> (string \<times> GenerateCall list) list \<Rightarrow> bool" where
  "grouped f d = (\<forall>(k, g)\<in>set d. g \<noteq> [] \<and> (\<forall>x\<in>set g. f x = k))"

text \<open>
  A scheduler as the constructor leaves it at time 5, and a call whose \<open>cancelled\<close> flag is
  set before it is submitted.
\<close>

definition idle_scheduler :: Scheduler where
  "idle_scheduler = Scheduler_init ''m'' None False 5"

definition cancelled_call :: GenerateCall where
  "cancelled_call = \<lparr>prompt = [4, 5], logit_bias = VDict [], kwargs = [],
     stream_id = VInt 3, result_queue = 0, cancelled = True\<rparr>"

section \<open>Failure of a batch\<close>

text \<open>
  The exception that leaves the backend call of \<open>process_batch\<close> for a batch, if any: what
  \<open>score\<close> raises for a score batch; for a generation batch what the streamer raises
  during \<open>generate\<close> (the cancellation signal among them) or, after the steps, what
  \<open>generate\<close> ends with.
\<close>

definition backend_raises :: "Backend \<Rightarrow> GenerateBatch \<Rightarrow> queues \<Rightarrow> exn option" where
  "backend_raises model b qs =
     (if is_score b then
        (case score model b of Inl e \<Rightarrow> Some e | Inr scores \<Rightarrow> None)
      else
        (case run_steps \<lparr>ts_batch = b, ts_cancels = cancellable model,
                          ts_eos_token_id = eos_token_id model\<rparr> (fst (generate model b)) qs of
           (Some e, qs') \<Rightarrow> Some e
         | (None, qs') \<Rightarrow> (case snd (generate model b) of Inl e \<Rightarrow> Some e | Inr r \<Rightarrow> None)))"

text \<open>The text of the error payload for an exception, by the two handlers.\<close>

definition error_text :: "exn \<Rightarrow> string" where
  "error_text e = (case e of InterruptedError m \<Rightarrow> ''lmtp.cancelled'' | _ \<Rightarrow> failure_text e)"

text \<open>One error payload for each call of \<open>cs\<close> whose output queue is \<open>q\<close>, in order.\<close>

definition error_payloads :: "string \<Rightarrow> GenerateCall list \<Rightarrow> nat \<Rightarrow> (msg_type \<times> payload) list" where
  "error_payloads m cs q =
     map (\<lambda>c. (TOKEN, Error (stream_id c) m)) (filter (\<lambda>c. result_queue c = q) cs)"

text \<open>
  Example backends: one whose \<open>score\<close> and \<open>generate\<close> raise, one that calls the streamer
  once; and the batch of the cancelled call.
\<close>

definition failing_backend :: Backend where
  "failing_backend =
     \<lparr>max_batch_size = 8, eos_token_id = 2, cancellable = True,
      score = (\<lambda>b. Inl (PyException ''out of memory'')),
      generate = (\<lambda>b. ([], Inl (PyException ''out of memory'')))\<rparr>"

definition stepping_backend :: Backend where
  "stepping_backend =
     \<lparr>max_batch_size = 8, eos_token_id = 2, cancellable = True,
      score = (\<lambda>b. Inr []),
      generate = (\<lambda>b. ([([[4, 5, 1]], [[[- 2, - 1]]])], Inr ([[4, 5, 1]], [[[- 2, - 1]]])))\<rparr>"

definition cancelled_batch :: GenerateBatch where
  "cancelled_batch = \<lparr>input_ids = [[4, 5]], attention_mask = [[1, 1]],
     temperature = VFloat 0, max_tokens = VInt 32, logit_biases = [VDict []],
     calls = [cancelled_call], is_score = False, scoring_offsets = None, batch_kwargs = []\<rparr>"

section \<open>Score calls\<close>








section \<open>Properties of batch construction\<close>

lemma generation_mode_score_iff:
  "generation_mode repr c = ''score'' \<longleftrightarrow> is_score_call c"
  by (simp add: generation_mode_def Let_def)

lemma same_mode_same_score:
  "generation_mode repr c = generation_mode repr d \<Longrightarrow> is_score_call c = is_score_call d"
  by (metis generation_mode_score_iff)

lemma py_gt_num:
  "num_of a \<noteq> None \<Longrightarrow> num_of b \<noteq> None \<Longrightarrow> \<exists>r. py_gt a b = Inr r"
  by (auto simp: py_gt_def)

lemma py_max_from_num:
  "num_of m \<noteq> None \<Longrightarrow> \<forall>v\<in>set xs. num_of v \<noteq> None \<Longrightarrow>
   \<exists>r. py_max_from m xs = Inr r \<and> num_of r \<noteq> None"
proof (induction xs arbitrary: m)
  case Nil
  then show ?case by simp
next
  case (Cons x xs)
  from Cons.prems obtain b where b: "py_gt x m = Inr b"
    using py_gt_num [of x m] by auto
  have "num_of (if b then x else m) \<noteq> None"
    using Cons.prems by simp
  with Cons.IH [of "if b then x else m"] Cons.prems b show ?case
    by simp
qed

lemma py_max_num:
  assumes "xs \<noteq> []" and a: "\<forall>v\<in>set xs. num_of v \<noteq> None"
  shows "\<exists>r. py_max xs = Inr r \<and> num_of r \<noteq> None"
proof (cases xs)
  case Nil
  with assms show ?thesis by simp
next
  case (Cons a list)
  from a Cons have "num_of a \<noteq> None" "\<forall>v\<in>set list. num_of v \<noteq> None" by auto
  from py_max_from_num [OF this] Cons show ?thesis by (simp add: py_max_def)
qed

lemma py_add_int_num:
  "num_of v \<noteq> None \<Longrightarrow> \<exists>r. py_add_int v n = Inr r"
  by (cases v) auto

lemma sequence_all_Inr:
  "\<forall>x\<in>set xs. \<exists>v. x = Inr v \<Longrightarrow> \<exists>vs. sequence xs = Inr vs \<and> length vs = length xs"
  by (induction xs) auto

lemma sum_list_mask:
  "sum_list (replicate a (0::int) @ replicate n 1) = int n"
  by (simp add: sum_list_replicate)

lemma from_calls_succeeds:
  assumes ne: "cs \<noteq> []"
      and mode: "\<forall>c\<in>set cs. generation_mode repr c = generation_mode repr (hd cs)"
      and typed: "\<forall>c\<in>set cs. kwargs_typed c"
  shows "\<exists>b. from_calls cs = Inr b \<and>
           input_ids b =
             map (\<lambda>p. replicate (Max (set (map length (map prompt cs))) - length p) 0 @ p)
               (map prompt cs) \<and>
           attention_mask b =
             map (\<lambda>p. replicate (Max (set (map length (map prompt cs))) - length p) 0 @
                        replicate (length p) 1) (map prompt cs) \<and>
           calls b = cs"
proof -
  obtain mt where mt: "py_max (map (\<lambda>c. dict_get (kwargs c) ''max_tokens'' (VInt 32)) cs) = Inr mt"
    using py_max_num [of "map (\<lambda>c. dict_get (kwargs c) ''max_tokens'' (VInt 32)) cs"] ne typed
    by (auto simp: kwargs_typed_def)
  have same: "\<forall>c\<in>set cs. is_score_call c = is_score_call (hd cs)"
    using mode same_mode_same_score by blast
  have noassert: "\<not> (list_ex is_score_call cs \<and> \<not> list_all is_score_call cs)"
    using same by (auto simp: list_ex_iff list_all_iff)
  obtain offs where offs:
    "sequence (map (\<lambda>c. py_add_int (dict_get (kwargs c) ''scoring_offset'' (VInt 0))
        (int (Max (set (map length (map prompt cs))) - length (prompt c)))) cs) = Inr offs"
    using sequence_all_Inr [of "map (\<lambda>c. py_add_int (dict_get (kwargs c) ''scoring_offset'' (VInt 0))
        (int (Max (set (map length (map prompt cs))) - length (prompt c)))) cs"] typed
      py_add_int_num
    by (fastforce simp: kwargs_typed_def)
  show ?thesis
    using ne mt noassert offs
    by (auto simp: from_calls_def Let_def)
qed


lemma Lmax_ge: "c \<in> set cs \<Longrightarrow> length (prompt c) \<le> Lmax cs"
  by (simp add: Lmax_def)

lemma Lmax_map: "Max (set (map length (map prompt cs))) = Lmax cs"
  by (simp add: Lmax_def comp_def)

lemma py_gt_error: "py_gt a b = Inl e \<Longrightarrow> \<exists>m. e = TypeError m"
  by (auto simp: py_gt_def split: option.splits pyval.splits)

lemma py_max_from_error: "py_max_from m xs = Inl e \<Longrightarrow> \<exists>t. e = TypeError t"
  by (induction xs arbitrary: m) (auto split: sum.splits dest: py_gt_error)

lemma py_max_error: "py_max xs = Inl e \<Longrightarrow> \<exists>t. e = TypeError t \<or> e = ValueError t"
  by (cases xs) (auto simp: py_max_def dest: py_max_from_error)

lemma py_add_int_error: "py_add_int v n = Inl e \<Longrightarrow> \<exists>t. e = TypeError t"
  by (cases v) auto

lemma sequence_error: "sequence xs = Inl e \<Longrightarrow> Inl e \<in> set xs"
  by (induction xs) (auto split: sum.splits)

text \<open>
  \<^bold>\<open>C1.\<close> For a non-empty list of calls that share one \<open>generation_mode\<close> (and whose
  \<^verbatim>\<open>max_tokens\<close> and \<^verbatim>\<open>scoring_offset\<close> options, when given, are numbers, as the data
  model types them), \<open>from_calls\<close> returns a batch. Every row of \<open>input_ids\<close> and
  of \<open>attention_mask\<close> has length \<open>Lmax\<close>, the length of the longest prompt. In row \<open>i\<close>
  the first \<open>Lmax - len(prompt)\<close> positions hold token 0 and mask 0, the remaining
  \<open>len(prompt)\<close> positions hold the prompt's tokens in order and mask 1, and the mask row sums
  to \<open>len(prompt)\<close>.
\<close>
theorem from_calls_left_padded:
  assumes ne: "cs \<noteq> []"
      and mode: "\<forall>c\<in>set cs. generation_mode repr c = generation_mode repr (hd cs)"
      and typed: "\<forall>c\<in>set cs. kwargs_typed c"
  shows "\<exists>b. from_calls cs = Inr b \<and>
           length (input_ids b) = length cs \<and> length (attention_mask b) = length cs \<and>
           (\<forall>i<length cs.
              length (prompt (cs ! i)) \<le> Lmax cs \<and>
              length (input_ids b ! i) = Lmax cs \<and>
              length (attention_mask b ! i) = Lmax cs \<and>
              (\<forall>j<Lmax cs - length (prompt (cs ! i)).
                 input_ids b ! i ! j = 0 \<and> attention_mask b ! i ! j = 0) \<and>
              (\<forall>j<length (prompt (cs ! i)).
                 input_ids b ! i ! (Lmax cs - length (prompt (cs ! i)) + j) = prompt (cs ! i) ! j \<and>
                 attention_mask b ! i ! (Lmax cs - length (prompt (cs ! i)) + j) = 1) \<and>
              sum_list (attention_mask b ! i) = int (length (prompt (cs ! i))))"
proof -
  from from_calls_succeeds [OF ne mode typed] obtain b where
    b: "from_calls cs = Inr b"
    and ids: "input_ids b = map (\<lambda>p. replicate (Lmax cs - length p) 0 @ p) (map prompt cs)"
    and mask: "attention_mask b =
                 map (\<lambda>p. replicate (Lmax cs - length p) 0 @ replicate (length p) 1) (map prompt cs)"
    unfolding Lmax_map by blast
  have row: "length (prompt (cs ! i)) \<le> Lmax cs \<and>
              length (input_ids b ! i) = Lmax cs \<and>
              length (attention_mask b ! i) = Lmax cs \<and>
              (\<forall>j<Lmax cs - length (prompt (cs ! i)).
                 input_ids b ! i ! j = 0 \<and> attention_mask b ! i ! j = 0) \<and>
              (\<forall>j<length (prompt (cs ! i)).
                 input_ids b ! i ! (Lmax cs - length (prompt (cs ! i)) + j) = prompt (cs ! i) ! j \<and>
                 attention_mask b ! i ! (Lmax cs - length (prompt (cs ! i)) + j) = 1) \<and>
              sum_list (attention_mask b ! i) = int (length (prompt (cs ! i)))"
    if i: "i < length cs" for i
  proof -
    have le: "length (prompt (cs ! i)) \<le> Lmax cs"
      using i by (simp add: Lmax_ge)
    have r: "input_ids b ! i = replicate (Lmax cs - length (prompt (cs ! i))) 0 @ prompt (cs ! i)"
      using i by (simp add: ids)
    have m: "attention_mask b ! i =
               replicate (Lmax cs - length (prompt (cs ! i))) 0 @ replicate (length (prompt (cs ! i))) 1"
      using i by (simp add: mask)
    have pad: "\<forall>j<Lmax cs - length (prompt (cs ! i)).
                 input_ids b ! i ! j = 0 \<and> attention_mask b ! i ! j = 0"
      by (simp add: r m nth_append)
    have real: "\<forall>j<length (prompt (cs ! i)).
                 input_ids b ! i ! (Lmax cs - length (prompt (cs ! i)) + j) = prompt (cs ! i) ! j \<and>
                 attention_mask b ! i ! (Lmax cs - length (prompt (cs ! i)) + j) = 1"
      by (simp add: r m nth_append)
    have len: "length (input_ids b ! i) = Lmax cs \<and> length (attention_mask b ! i) = Lmax cs"
      using le by (simp add: r m)
    have total: "sum_list (attention_mask b ! i) = int (length (prompt (cs ! i)))"
      by (simp add: m sum_list_replicate)
    show ?thesis
      using le pad real len total by blast
  qed
  have l1: "length (input_ids b) = length cs" by (simp add: ids)
  have l2: "length (attention_mask b) = length cs" by (simp add: mask)
  show ?thesis
    using b l1 l2 row by blast
qed

theorem from_calls_left_padded_witness:
  "\<exists>b. from_calls [call_a, call_b] = Inr b \<and>
        length (input_ids b ! 0) = 3 \<and>
        input_ids b ! 0 ! 0 = 0 \<and> input_ids b ! 0 ! 1 = 1 \<and> input_ids b ! 0 ! 2 = 2 \<and>
        attention_mask b ! 0 ! 0 = 0 \<and> attention_mask b ! 0 ! 1 = 1 \<and>
        sum_list (attention_mask b ! 0) = 2 \<and> sum_list (attention_mask b ! 1) = 3"
proof -
  let ?cs = "[call_a, call_b]"
  have ne: "?cs \<noteq> []" by simp
  have mode: "\<forall>c\<in>set ?cs. generation_mode (\<lambda>_. ''0.0'') c = generation_mode (\<lambda>_. ''0.0'') (hd ?cs)"
    by (simp add: generation_mode_def is_score_call_def dict_get_def setdefault_def call_a_def call_b_def)
  have typed: "\<forall>c\<in>set ?cs. kwargs_typed c"
    by (simp add: kwargs_typed_def dict_get_def call_a_def call_b_def)
  have L: "Lmax ?cs = 3" by (simp add: Lmax_def call_a_def call_b_def)
  have pa: "prompt call_a = [1, 2]" and pb: "prompt call_b = [1, 2, 3]"
    by (simp_all add: call_a_def call_b_def)
  from from_calls_left_padded [OF ne mode typed] obtain b where
    b: "from_calls ?cs = Inr b" and
    rows: "\<forall>i<length ?cs.
              length (prompt (?cs ! i)) \<le> Lmax ?cs \<and>
              length (input_ids b ! i) = Lmax ?cs \<and>
              length (attention_mask b ! i) = Lmax ?cs \<and>
              (\<forall>j<Lmax ?cs - length (prompt (?cs ! i)).
                 input_ids b ! i ! j = 0 \<and> attention_mask b ! i ! j = 0) \<and>
              (\<forall>j<length (prompt (?cs ! i)).
                 input_ids b ! i ! (Lmax ?cs - length (prompt (?cs ! i)) + j) = prompt (?cs ! i) ! j \<and>
                 attention_mask b ! i ! (Lmax ?cs - length (prompt (?cs ! i)) + j) = 1) \<and>
              sum_list (attention_mask b ! i) = int (length (prompt (?cs ! i)))"
    by blast
  from rows [rule_format, of 0] rows [rule_format, of 1]
  have r0: "length (input_ids b ! 0) = 3"
    and p0: "\<forall>j<1. input_ids b ! 0 ! j = 0 \<and> attention_mask b ! 0 ! j = 0"
    and t0: "\<forall>j<2. input_ids b ! 0 ! (1 + j) = [1, 2] ! j \<and> attention_mask b ! 0 ! (1 + j) = 1"
    and s0: "sum_list (attention_mask b ! 0) = 2"
    and s1: "sum_list (attention_mask b ! 1) = 3"
    by (simp_all add: L pa pb)
  from p0 have a: "input_ids b ! 0 ! 0 = 0" "attention_mask b ! 0 ! 0 = 0" by simp_all
  from t0 [rule_format, of 0] t0 [rule_format, of 1]
  have c: "input_ids b ! 0 ! 1 = 1" "input_ids b ! 0 ! 2 = 2" "attention_mask b ! 0 ! 1 = 1"
    by (simp_all add: numeral_2_eq_2)
  show ?thesis
    using b r0 a c s0 s1 by blast
qed

text \<open>
  \<^bold>\<open>C6.\<close> For a non-empty list of calls that share one \<open>generation_mode\<close>: if some
  call is a score call then all are, \<open>from_calls\<close> never fails with the assertion
  "cannot mix score and non-score calls in batch", and the mode of a call is \<^verbatim>\<open>"score"\<close>
  exactly when it is a score call and starts with \<^verbatim>\<open>"generate-"\<close> otherwise.
\<close>
theorem mixed_batch_unreachable:
  assumes ne: "cs \<noteq> []"
      and mode: "\<forall>c\<in>set cs. generation_mode repr c = generation_mode repr (hd cs)"
  shows "((\<exists>c\<in>set cs. is_score_call c) \<longrightarrow> (\<forall>c\<in>set cs. is_score_call c)) \<and>
         (\<forall>m. from_calls cs \<noteq> Inl (AssertionError m)) \<and>
         (\<forall>c\<in>set cs.
            (generation_mode repr c = ''score'' \<longleftrightarrow> is_score_call c) \<and>
            (\<not> is_score_call c \<longrightarrow> take 9 (generation_mode repr c) = ''generate-''))"
proof -
  have same: "\<forall>c\<in>set cs. is_score_call c = is_score_call (hd cs)"
    using mode same_mode_same_score by blast
  then have all: "(\<exists>c\<in>set cs. is_score_call c) \<longrightarrow> (\<forall>c\<in>set cs. is_score_call c)"
    by blast
  have noassert: "\<not> (list_ex is_score_call cs \<and> \<not> list_all is_score_call cs)"
    using same by (auto simp: list_ex_iff list_all_iff)
  have "from_calls cs \<noteq> Inl (AssertionError m)" for m
  proof
    assume a: "from_calls cs = Inl (AssertionError m)"
    show False
    proof (cases "py_max (map (\<lambda>c. dict_get (kwargs c) ''max_tokens'' (VInt 32)) cs)")
      case (Inl e)
      with a ne have "e = AssertionError m"
        by (simp add: from_calls_def Let_def)
      with py_max_error [OF Inl] show False by auto
    next
      case (Inr mt)
      show False
      proof (cases "sequence (map (\<lambda>c. py_add_int (dict_get (kwargs c) ''scoring_offset'' (VInt 0))
            (int (Max (set (map length (map prompt cs))) - length (prompt c)))) cs)")
        case (Inl e)
        then obtain t where "e = TypeError t"
          by (auto dest!: sequence_error py_add_int_error [OF sym])
        with a ne noassert Inr Inl show False
          by (auto simp: from_calls_def Let_def split: if_splits)
      next
        case (Inr offs)
        with a ne noassert \<open>py_max _ = Inr mt\<close> show False
          by (auto simp: from_calls_def Let_def split: if_splits)
      qed
    qed
  qed
  moreover have "(generation_mode repr c = ''score'' \<longleftrightarrow> is_score_call c) \<and>
            (\<not> is_score_call c \<longrightarrow> take 9 (generation_mode repr c) = ''generate-'')" for c
    by (simp add: generation_mode_def Let_def)
  ultimately show ?thesis
    using all by blast
qed

theorem mixed_batch_unreachable_witness:
  "from_calls [score_a, score_b]
     \<noteq> Inl (AssertionError ''cannot mix score and non-score calls in batch'') \<and>
   is_score_call score_b"
proof -
  let ?cs = "[score_a, score_b]"
  have ne: "?cs \<noteq> []" by simp
  have mode: "\<forall>c\<in>set ?cs. generation_mode (\<lambda>_. ''1.0'') c = generation_mode (\<lambda>_. ''1.0'') (hd ?cs)"
    by (simp add: generation_mode_def is_score_call_def dict_get_def score_a_def score_b_def)
  have one: "\<exists>c\<in>set ?cs. is_score_call c"
    by (simp add: is_score_call_def dict_get_def score_a_def)
  from mixed_batch_unreachable [OF ne mode] one
  have "\<forall>c\<in>set ?cs. is_score_call c" and "\<forall>m. from_calls ?cs \<noteq> Inl (AssertionError m)"
    by blast+
  then show ?thesis by simp
qed

section \<open>Properties of the streamers\<close>

lemma fold_call_put:
  "fold (call_put c) ps qs = qs(result_queue c := qs (result_queue c) @ map (Pair TOKEN) ps)"
  by (induction ps arbitrary: qs) (simp_all add: call_put_def enqueue_def)

lemma py_index_nat:
  "py_index xs (int i) = (if i < length xs then Inr (xs ! i) else Inl (IndexError ''index out of range''))"
  by (simp add: py_index_def)

lemma score_payloads_stream_id:
  "p \<in> set (score_payloads c scores ids) \<Longrightarrow> token_of c p"
  by (auto simp: score_payloads_def token_of_def)

lemma score_row_shape:
  "\<exists>ps. snd (score_row b sc i qs) = fold (call_put (calls b ! i)) ps qs \<and>
        (\<forall>p\<in>set ps. token_of (calls b ! i) p) \<and>
        (ps \<noteq> [] \<longrightarrow> i < length (calls b))"
proof (cases "\<exists>x. score_row b sc i qs = (Some x, qs)")
  case True
  then have "snd (score_row b sc i qs) = fold (call_put (calls b ! i)) [] qs" by auto
  then show ?thesis by (intro exI [of _ "[]"]) simp
next
  case False
  then obtain scores ids where
    "score_row b sc i qs = (None, fold (call_put (calls b ! i)) (score_payloads (calls b ! i) scores ids) qs)"
    and "i < length (calls b)"
    by (auto simp: score_row_def py_index_nat split: option.splits sum.splits if_splits)
  then show ?thesis
    by (intro exI [of _ "score_payloads (calls b ! i) scores ids"])
       (simp add: score_payloads_stream_id)
qed

lemma token_row_shape:
  "\<exists>ps. snd (token_row s lst lt ls alp ai i qs) = fold (call_put (calls (ts_batch s) ! i)) ps qs \<and>
        (\<forall>p\<in>set ps. token_of (calls (ts_batch s) ! i) p) \<and>
        (ps \<noteq> [] \<longrightarrow> i < length (calls (ts_batch s)))"
proof (cases "\<exists>x. token_row s lst lt ls alp ai i qs = (Some x, qs)")
  case True
  then have "snd (token_row s lst lt ls alp ai i qs) = fold (call_put (calls (ts_batch s) ! i)) [] qs"
    by auto
  then show ?thesis by (intro exI [of _ "[]"]) simp
next
  case False
  then obtain t lp fr tops where
    "token_row s lst lt ls alp ai i qs =
       (None, call_put (calls (ts_batch s) ! i) (Token t (stream_id (calls (ts_batch s) ! i)) lp fr tops) qs)"
    and "i < length (calls (ts_batch s))"
    by (auto simp: token_row_def py_index_nat Let_def split: option.splits sum.splits if_splits)
  then show ?thesis
    by (intro exI [of _ "[Token t (stream_id (calls (ts_batch s) ! i)) lp fr tops]"])
       (simp add: token_of_def)
qed

lemma routed_refl: "routed cs qs qs"
  by (simp add: routed_def)

lemma routed_trans: "routed cs a b \<Longrightarrow> routed cs b c \<Longrightarrow> routed cs a c"
  unfolding routed_def
proof
  fix q
  assume ab: "\<forall>q. \<exists>ms. b q = a q @ ms \<and>
        (\<forall>m\<in>set ms. \<exists>i<length cs.
           result_queue (cs ! i) = q \<and> fst m = TOKEN \<and>
           token_of (cs ! i) (snd m))"
    and bc: "\<forall>q. \<exists>ms. c q = b q @ ms \<and>
        (\<forall>m\<in>set ms. \<exists>i<length cs.
           result_queue (cs ! i) = q \<and> fst m = TOKEN \<and>
           token_of (cs ! i) (snd m))"
  from ab obtain m1 where m1: "b q = a q @ m1"
    "\<forall>m\<in>set m1. \<exists>i<length cs. result_queue (cs ! i) = q \<and> fst m = TOKEN \<and>
           token_of (cs ! i) (snd m)" by blast
  from bc obtain m2 where m2: "c q = b q @ m2"
    "\<forall>m\<in>set m2. \<exists>i<length cs. result_queue (cs ! i) = q \<and> fst m = TOKEN \<and>
           token_of (cs ! i) (snd m)" by blast
  show "\<exists>ms. c q = a q @ ms \<and>
        (\<forall>m\<in>set ms. \<exists>i<length cs.
           result_queue (cs ! i) = q \<and> fst m = TOKEN \<and>
           token_of (cs ! i) (snd m))"
    using m1 m2 by (intro exI [of _ "m1 @ m2"]) auto
qed

lemma routed_puts:
  assumes "\<forall>p\<in>set ps. token_of (cs ! i) p"
      and "ps \<noteq> [] \<longrightarrow> i < length cs"
  shows "routed cs qs (fold (call_put (cs ! i)) ps qs)"
  unfolding routed_def fold_call_put
proof
  fix q
  show "\<exists>ms. (qs(result_queue (cs ! i) := qs (result_queue (cs ! i)) @ map (Pair TOKEN) ps)) q = qs q @ ms \<and>
        (\<forall>m\<in>set ms. \<exists>j<length cs.
           result_queue (cs ! j) = q \<and> fst m = TOKEN \<and>
           token_of (cs ! j) (snd m))"
  proof (cases "q = result_queue (cs ! i)")
    case True
    with assms show ?thesis
      by (intro exI [of _ "map (Pair TOKEN) ps"]) auto
  next
    case False
    then show ?thesis by (intro exI [of _ "[]"]) simp
  qed
qed

lemma for_rows_routed:
  assumes "\<And>i qs. routed cs qs (snd (body i qs))"
  shows "routed cs qs (snd (for_rows body rows qs))"
proof (induction rows arbitrary: qs)
  case Nil
  show ?case by (simp add: routed_refl)
next
  case (Cons i rows)
  obtain r qs' where step: "body i qs = (r, qs')" by (cases "body i qs")
  with assms [of qs i] have one: "routed cs qs qs'" by simp
  show ?case
  proof (cases r)
    case None
    with step Cons.IH [of qs'] one show ?thesis
      by (auto intro: routed_trans)
  next
    case (Some e)
    with step one show ?thesis by simp
  qed
qed

lemma score_log_routed: "routed (calls b) qs (snd (ScoreStreamer_log_token b sc qs))"
  unfolding ScoreStreamer_log_token_def
proof (rule for_rows_routed)
  fix i qs
  from score_row_shape [of b sc i qs] obtain ps where
    "snd (score_row b sc i qs) = fold (call_put (calls b ! i)) ps qs"
    "\<forall>p\<in>set ps. token_of (calls b ! i) p"
    "ps \<noteq> [] \<longrightarrow> i < length (calls b)" by blast
  then show "routed (calls b) qs (snd (score_row b sc i qs))"
    by (simp add: routed_puts)
qed

lemma token_log_routed:
  "routed (calls (ts_batch s)) qs (snd (TokenStreamer_log_token s inp scores lst qs))"
proof -
  have row: "routed (calls (ts_batch s)) qs (snd (token_row s lst lt ls alp ai i qs))" for lt ls alp ai i qs
  proof -
    from token_row_shape [of s lst lt ls alp ai i qs] obtain ps where
      "snd (token_row s lst lt ls alp ai i qs) = fold (call_put (calls (ts_batch s) ! i)) ps qs"
      "\<forall>p\<in>set ps. token_of (calls (ts_batch s) ! i) p"
      "ps \<noteq> [] \<longrightarrow> i < length (calls (ts_batch s))" by blast
    then show ?thesis by (simp add: routed_puts)
  qed
  show ?thesis
    unfolding TokenStreamer_log_token_def Let_def
    by (auto split: sum.splits prod.splits simp: routed_refl intro!: for_rows_routed row)
qed

text \<open>
  \<^bold>\<open>C10.\<close> Whatever \<open>ScoreStreamer.log_token\<close> or \<open>TokenStreamer.log_token\<close> appends
  to a queue is a \<^verbatim>\<open>TOKEN\<close> message carrying the stream id of a call of the batch whose
  output queue that queue is. Row by row: what the loop body appends for row \<open>i\<close> goes to
  the output queue of \<open>calls[i]\<close> and carries the stream id of \<open>calls[i]\<close>, and a row
  beyond the calls of the batch appends nothing.
\<close>

theorem streamer_payloads_routed:
  "routed (calls b) qs (snd (ScoreStreamer_log_token b sc qs)) \<and>
   routed (calls (ts_batch s)) qs (snd (TokenStreamer_log_token s inp scores lst qs)) \<and>
   (\<exists>ps. snd (score_row b sc i qs) =
            qs(result_queue (calls b ! i) := qs (result_queue (calls b ! i)) @ map (Pair TOKEN) ps) \<and>
          (\<forall>p\<in>set ps. token_of (calls b ! i) p) \<and>
          (ps \<noteq> [] \<longrightarrow> i < length (calls b))) \<and>
   (\<exists>ps. snd (token_row s lst lt ls alp ai j qs) =
            qs(result_queue (calls (ts_batch s) ! j) :=
                 qs (result_queue (calls (ts_batch s) ! j)) @ map (Pair TOKEN) ps) \<and>
          (\<forall>p\<in>set ps. token_of (calls (ts_batch s) ! j) p) \<and>
          (ps \<noteq> [] \<longrightarrow> j < length (calls (ts_batch s))))"
  using score_log_routed [of b qs sc] token_log_routed [of s qs inp scores lst]
    score_row_shape [of b sc i qs] token_row_shape [of s lst lt ls alp ai j qs]
  unfolding fold_call_put by blast

lemma gen_step_queue_0:
  "snd (TokenStreamer_log_token gen_streamer [[0, 1, 2, 3], [1, 2, 3, 0]]
          [[[- 4, - 3, - 2, - 1], [- 1, - 2, - 3, - 4]]] False no_messages) 0 =
   [(TOKEN, Token 3 (VInt 1) (- 1) None (Some [(3, - 1), (2, - 2)]))]"
  by (simp add: TokenStreamer_log_token_def last_column_def py_index_def gen_streamer_def
      gen_batch_def call_a_def call_b_def dict_get_def py_max_def py_gt_def batch_cancelled_def
      topk_def topk_row_def token_row_def dict_merge_def dict_of_def call_put_def enqueue_def
      no_messages_def Let_def upt_rec)

lemma gen_step_queue_1:
  "snd (TokenStreamer_log_token gen_streamer [[0, 1, 2, 3], [1, 2, 3, 0]]
          [[[- 4, - 3, - 2, - 1], [- 1, - 2, - 3, - 4]]] False no_messages) 1 =
   [(TOKEN, Token 0 (VInt 2) (- 1) None (Some [(0, - 1), (1, - 2)]))]"
  by (simp add: TokenStreamer_log_token_def last_column_def py_index_def gen_streamer_def
      gen_batch_def call_a_def call_b_def dict_get_def py_max_def py_gt_def batch_cancelled_def
      topk_def topk_row_def token_row_def dict_merge_def dict_of_def call_put_def enqueue_def
      no_messages_def Let_def upt_rec)

theorem streamer_payloads_routed_witness:
  "routed [call_a, call_b] no_messages
     (snd (TokenStreamer_log_token gen_streamer [[0, 1, 2, 3], [1, 2, 3, 0]]
             [[[- 4, - 3, - 2, - 1], [- 1, - 2, - 3, - 4]]] False no_messages)) \<and>
   snd (TokenStreamer_log_token gen_streamer [[0, 1, 2, 3], [1, 2, 3, 0]]
          [[[- 4, - 3, - 2, - 1], [- 1, - 2, - 3, - 4]]] False no_messages) 0 =
     [(TOKEN, Token 3 (VInt 1) (- 1) None (Some [(3, - 1), (2, - 2)]))] \<and>
   snd (TokenStreamer_log_token gen_streamer [[0, 1, 2, 3], [1, 2, 3, 0]]
          [[[- 4, - 3, - 2, - 1], [- 1, - 2, - 3, - 4]]] False no_messages) 1 =
     [(TOKEN, Token 0 (VInt 2) (- 1) None (Some [(0, - 1), (1, - 2)]))] \<and>
   stream_id call_a = VInt 1 \<and> result_queue call_a = 0 \<and>
   stream_id call_b = VInt 2 \<and> result_queue call_b = 1"
proof -
  have c: "calls (ts_batch gen_streamer) = [call_a, call_b]"
    by (simp add: gen_streamer_def gen_batch_def)
  from streamer_payloads_routed [of undefined no_messages undefined gen_streamer
      "[[0, 1, 2, 3], [1, 2, 3, 0]]" "[[[- 4, - 3, - 2, - 1], [- 1, - 2, - 3, - 4]]]" False]
  have "routed [call_a, call_b] no_messages
     (snd (TokenStreamer_log_token gen_streamer [[0, 1, 2, 3], [1, 2, 3, 0]]
             [[[- 4, - 3, - 2, - 1], [- 1, - 2, - 3, - 4]]] False no_messages))"
    unfolding c by blast
  then show ?thesis
    using gen_step_queue_0 gen_step_queue_1 by (simp add: call_a_def call_b_def)
qed

text \<open>
  \<^bold>\<open>C2.\<close> The \<^verbatim>\<open>top_logprobs\<close> dictionary of a payload is built from the whole row of the
  batch-wide top-k: in the batch of \<open>call_a\<close>, which asks for no \<^verbatim>\<open>top_logprobs\<close> and so
  for one entry, and \<open>call_b\<close>, which asks for two, the payload of \<open>call_a\<close> has two
  entries although the emitted token 3 is the best of its row. The entry of the emitted
  token is the payload's \<^verbatim>\<open>logprob\<close>.
\<close>

theorem top_logprobs_batch_wide:
  "dict_get (kwargs call_a) ''top_logprobs'' (VInt 1) = VInt 1 \<and>
   dict_get (kwargs call_b) ''top_logprobs'' (VInt 1) = VInt 2 \<and>
   from_calls [call_a, call_b] = Inr gen_batch \<and>
   snd (TokenStreamer_log_token gen_streamer [[0, 1, 2, 3], [1, 2, 3, 0]]
          [[[- 4, - 3, - 2, - 1], [- 1, - 2, - 3, - 4]]] False no_messages) 0 =
     [(TOKEN, Token 3 (VInt 1) (- 1) None (Some [(3, - 1), (2, - 2)]))] \<and>
   length [(3 :: int, - 1 :: real), (2, - 2)] = 2"
proof -
  have "from_calls [call_a, call_b] = Inr gen_batch"
    by (simp add: from_calls_def call_a_def call_b_def gen_batch_def dict_get_def py_max_def
        py_gt_def is_score_call_def)
  moreover have "snd (TokenStreamer_log_token gen_streamer [[0, 1, 2, 3], [1, 2, 3, 0]]
          [[[- 4, - 3, - 2, - 1], [- 1, - 2, - 3, - 4]]] False no_messages) 0 =
     [(TOKEN, Token 3 (VInt 1) (- 1) None (Some [(3, - 1), (2, - 2)]))]"
    by (rule gen_step_queue_0)
  ultimately show ?thesis
    by (simp add: call_a_def call_b_def dict_get_def)
qed

section \<open>Properties of batch assembly\<close>

lemma concat_chunks: "0 < n \<Longrightarrow> concat (chunks n xs) = xs"
proof (induction n xs rule: chunks.induct)
  case (1 n xs)
  show ?case
  proof (cases "xs = []")
    case True
    then show ?thesis by (simp add: chunks.simps)
  next
    case False
    with 1 have "concat (chunks n (drop n xs)) = drop n xs" by simp
    with False 1(2) show ?thesis
      by (subst chunks.simps) simp
  qed
qed

lemma chunks_parts:
  "0 < n \<Longrightarrow> b \<in> set (chunks n xs) \<Longrightarrow> b \<noteq> [] \<and> length b \<le> n \<and> set b \<subseteq> set xs"
proof (induction n xs rule: chunks.induct)
  case (1 n xs)
  show ?case
  proof (cases "xs = []")
    case True
    with 1(3) show ?thesis by (simp add: chunks.simps)
  next
    case False
    from 1(3) False 1(2) have "b = take n xs \<or> b \<in> set (chunks n (drop n xs))"
      by (subst (asm) chunks.simps) auto
    then show ?thesis
    proof
      assume "b = take n xs"
      with False 1(2) show ?thesis by (auto dest: in_set_takeD)
    next
      assume "b \<in> set (chunks n (drop n xs))"
      with 1(1) False 1(2) have "b \<noteq> [] \<and> length b \<le> n \<and> set b \<subseteq> set (drop n xs)" by simp
      then show ?thesis by (auto dest: in_set_dropD)
    qed
  qed
qed

lemma split_batch_parts:
  assumes "0 < mbs" and "g \<noteq> []"
  shows "\<exists>bs. split_batch mbs g = Inr bs \<and> concat bs = g \<and>
           (\<forall>b\<in>set bs. b \<noteq> [] \<and> int (length b) \<le> mbs \<and> set b \<subseteq> set g)"
proof (cases "mbs < int (length g)")
  case True
  with assms have s: "split_batch mbs g = Inr (chunks (nat mbs) g)"
    by (simp add: split_batch_def)
  have pos: "0 < nat mbs" using assms by simp
  have c: "concat (chunks (nat mbs) g) = g" by (rule concat_chunks [OF pos])
  have p: "\<forall>b\<in>set (chunks (nat mbs) g). b \<noteq> [] \<and> int (length b) \<le> mbs \<and> set b \<subseteq> set g"
  proof
    fix b
    assume "b \<in> set (chunks (nat mbs) g)"
    from chunks_parts [OF pos this]
    have "b \<noteq> []" "length b \<le> nat mbs" "set b \<subseteq> set g" by simp_all
    then show "b \<noteq> [] \<and> int (length b) \<le> mbs \<and> set b \<subseteq> set g"
      using assms(1) by simp
  qed
  show ?thesis using s c p by blast
next
  case False
  then have s: "split_batch mbs g = Inr [g]" by (simp add: split_batch_def)
  have "concat [g] = g" by simp
  moreover have "\<forall>b\<in>set [g]. b \<noteq> [] \<and> int (length b) \<le> mbs \<and> set b \<subseteq> set g"
    using False assms by simp
  ultimately show ?thesis using s by blast
qed

lemma mset_update_append:
  "mset (concat (map snd (AList.update k (dict_get d k [] @ [c]) d))) =
   mset (concat (map snd d)) + {#c#}"
proof (induction d)
  case Nil
  show ?case by (simp add: dict_get_def)
next
  case (Cons p d)
  obtain k' v' where p: "p = (k', v')" by (cases p)
  show ?case
  proof (cases "k' = k")
    case True
    with p show ?thesis by (simp add: dict_get_def)
  next
    case False
    then have "dict_get (p # d) k [] = dict_get d k []"
      using p by (simp add: dict_get_def)
    with False p Cons.IH show ?thesis by simp
  qed
qed

lemma update_entries:
  "(k', g') \<in> set (AList.update k v d) \<Longrightarrow> (k', g') \<in> set d \<or> (k' = k \<and> g' = v)"
  by (induction d) (auto split: if_splits)

lemma mset_group_fold:
  "mset (concat (map snd
      (fold (\<lambda>c d. AList.update (f c) (dict_get d (f c) [] @ [c]) d) cs d))) =
   mset (concat (map snd d)) + mset cs"
  by (induction cs arbitrary: d) (simp_all add: mset_update_append)

lemma mset_group_by_mode: "mset (concat (map snd (group_by_mode repr cs))) = mset cs"
  by (simp add: group_by_mode_def mset_group_fold)

lemma grouped_step:
  assumes "grouped f d"
  shows "grouped f (AList.update (f c) (dict_get d (f c) [] @ [c]) d)"
  unfolding grouped_def
proof (clarify)
  fix k g
  assume "(k, g) \<in> set (AList.update (f c) (dict_get d (f c) [] @ [c]) d)"
  from update_entries [OF this]
  show "g \<noteq> [] \<and> (\<forall>x\<in>set g. f x = k)"
  proof
    assume "(k, g) \<in> set d"
    with assms show ?thesis by (auto simp: grouped_def)
  next
    assume kg: "k = f c \<and> g = dict_get d (f c) [] @ [c]"
    have "\<forall>x\<in>set (dict_get d (f c) []). f x = f c"
    proof (cases "map_of d (f c)")
      case None
      then show ?thesis by (simp add: dict_get_def)
    next
      case (Some old)
      then have "(f c, old) \<in> set d" by (rule map_of_SomeD)
      with assms have "\<forall>x\<in>set old. f x = f c" by (auto simp: grouped_def)
      with Some show ?thesis by (simp add: dict_get_def)
    qed
    with kg show ?thesis by auto
  qed
qed

lemma grouped_fold:
  "grouped f d \<Longrightarrow> grouped f (fold (\<lambda>c d. AList.update (f c) (dict_get d (f c) [] @ [c]) d) cs d)"
  by (induction cs arbitrary: d) (simp_all add: grouped_step)

lemma grouped_by_mode: "grouped (generation_mode repr) (group_by_mode repr cs)"
  unfolding group_by_mode_def by (rule grouped_fold) (simp add: grouped_def)

lemma sequence_split:
  assumes "0 < mbs" and "grouped f d"
  shows "\<exists>bss. sequence (map (\<lambda>(mode, b). split_batch mbs b) d) = Inr bss \<and>
           concat (concat bss) = concat (map snd d) \<and>
           (\<forall>b\<in>set (concat bss). b \<noteq> [] \<and> int (length b) \<le> mbs \<and>
               (\<forall>x\<in>set b. f x = f (hd b)))"
  using assms(2)
proof (induction d)
  case Nil
  show ?case by simp
next
  case (Cons kg d)
  obtain k g where kg: "kg = (k, g)" by (cases kg)
  from Cons.prems kg have g: "g \<noteq> []" "\<forall>x\<in>set g. f x = k" and rest: "grouped f d"
    by (auto simp: grouped_def)
  from split_batch_parts [OF assms(1) g(1)] obtain bs where bs:
    "split_batch mbs g = Inr bs" "concat bs = g"
    "\<forall>b\<in>set bs. b \<noteq> [] \<and> int (length b) \<le> mbs \<and> set b \<subseteq> set g" by blast
  from Cons.IH [OF rest] obtain bss where bss:
    "sequence (map (\<lambda>(mode, b). split_batch mbs b) d) = Inr bss"
    "concat (concat bss) = concat (map snd d)"
    "\<forall>b\<in>set (concat bss). b \<noteq> [] \<and> int (length b) \<le> mbs \<and> (\<forall>x\<in>set b. f x = f (hd b))"
    by blast
  have same: "\<forall>x\<in>set b. f x = f (hd b)" if "b \<in> set bs" for b
  proof -
    from that bs(3) have "b \<noteq> []" "set b \<subseteq> set g" by auto
    then have "hd b \<in> set g" by (auto dest: hd_in_set)
    with g(2) \<open>set b \<subseteq> set g\<close> show ?thesis by auto
  qed
  have "sequence (map (\<lambda>(mode, b). split_batch mbs b) (kg # d)) = Inr (bs # bss)"
    using kg bs(1) bss(1) by simp
  moreover have "concat (concat (bs # bss)) = concat (map snd (kg # d))"
    using kg bs(2) bss(2) by simp
  moreover have "\<forall>b\<in>set (concat (bs # bss)). b \<noteq> [] \<and> int (length b) \<le> mbs \<and>
               (\<forall>x\<in>set b. f x = f (hd b))"
    using bs(3) bss(3) same by auto
  ultimately show ?case by blast
qed

text \<open>
  \<^bold>\<open>C3\<close> (as amended). \<open>put\<close> appends the call to the queue whatever its \<open>cancelled\<close>
  flag, and \<open>batches\<close>, for a positive maximal batch size, puts every call it takes from the
  queue, cancelled or not, in exactly one batch: the batches are non-empty, hold at most
  \<open>max_batch_size\<close> calls of one \<open>generation_mode\<close> each, and together are a rearrangement
  of the calls taken; the calls not taken stay in the queue.
\<close>

theorem batches_keep_every_call:
  assumes "0 < mbs"
  shows "queue (put c s) = queue s @ [c] \<and>
         (\<exists>bs. fst (batches repr window mbs s) = Inr bs \<and>
            mset (concat bs) = mset (take window (queue s)) \<and>
            (\<forall>b\<in>set bs. b \<noteq> [] \<and> int (length b) \<le> mbs \<and>
               (\<forall>x\<in>set b. generation_mode repr x = generation_mode repr (hd b)))) \<and>
         queue (snd (batches repr window mbs s)) = drop window (queue s)"
proof -
  let ?cs = "take window (queue s)"
  from sequence_split [OF assms grouped_by_mode [of repr ?cs]] obtain bss where bss:
    "sequence (map (\<lambda>(mode, b). split_batch mbs b) (group_by_mode repr ?cs)) = Inr bss"
    "concat (concat bss) = concat (map snd (group_by_mode repr ?cs))"
    "\<forall>b\<in>set (concat bss). b \<noteq> [] \<and> int (length b) \<le> mbs \<and>
        (\<forall>x\<in>set b. generation_mode repr x = generation_mode repr (hd b))"
    by blast
  have f: "fst (batches repr window mbs s) = Inr (concat bss)"
    using bss(1) by (simp add: batches_def drain_def Let_def)
  have m: "mset (concat (concat bss)) = mset ?cs"
    using bss(2) mset_group_by_mode [of repr ?cs] by simp
  have q: "queue (snd (batches repr window mbs s)) = drop window (queue s)"
    by (simp add: batches_def drain_def Let_def)
  have p: "queue (put c s) = queue s @ [c]" by (simp add: put_def)
  show ?thesis using f m q p bss(3) by blast
qed

theorem batches_keep_every_call_witness:
  "(0 :: int) < 8 \<and>
   (\<exists>bs. fst (batches (\<lambda>v. ''0.0'') 2 8 (put cancelled_call (put call_a idle_scheduler))) = Inr bs \<and>
      mset (concat bs) = {#call_a, cancelled_call#})"
proof -
  have pos: "(0 :: int) < 8" by simp
  have q: "take 2 (queue (put cancelled_call (put call_a idle_scheduler))) = [call_a, cancelled_call]"
    by (simp add: put_def idle_scheduler_def Scheduler_init_def)
  from batches_keep_every_call [OF pos, of undefined "put cancelled_call (put call_a idle_scheduler)"
      "\<lambda>v. ''0.0''" 2]
  obtain bs where
    "fst (batches (\<lambda>v. ''0.0'') 2 8 (put cancelled_call (put call_a idle_scheduler))) = Inr bs"
    "mset (concat bs) = mset (take 2 (queue (put cancelled_call (put call_a idle_scheduler))))"
    by blast
  then show ?thesis unfolding q using pos by auto
qed

text \<open>
  The claim as stated fails: a call cancelled before it is submitted comes out of
  \<open>batches\<close> in a batch.
\<close>

theorem cancelled_call_batched:
  "cancelled cancelled_call \<and>
   fst (batches (\<lambda>v. ''0.0'') 1 8 (put cancelled_call idle_scheduler)) = Inr [[cancelled_call]]"
  by (simp add: batches_def drain_def put_def idle_scheduler_def Scheduler_init_def
      group_by_mode_def dict_get_def split_batch_def cancelled_call_def)

section \<open>Properties of unregister\<close>

text \<open>
  \<^bold>\<open>C9\<close> (as amended). \<open>unregister(user)\<close> removes the user from the users set; it sets
  \<open>last_use\<close> to the current time when the user was in the set, and leaves \<open>last_use\<close> as
  it was when the user was not. The queue, the model identifier, the model arguments, the
  kill signal, the mode flag and the model description stay as they were.
\<close>

theorem unregister_effect:
  "users (unregister user now s) = users s - {user} \<and>
   last_use (unregister user now s) = (if user \<in> users s then now else last_use s) \<and>
   queue (unregister user now s) = queue s \<and>
   model_identifier (unregister user now s) = model_identifier s \<and>
   model_args (unregister user now s) = model_args s \<and>
   kill_event (unregister user now s) = kill_event s \<and>
   sync (unregister user now s) = sync s \<and>
   model_info (unregister user now s) = model_info s"
  by (simp add: unregister_def)

theorem unregister_effect_witness:
  "users (unregister 7 9 (idle_scheduler\<lparr>users := {7}\<rparr>)) = {} \<and>
   last_use (unregister 7 9 (idle_scheduler\<lparr>users := {7}\<rparr>)) = 9 \<and>
   queue (unregister 7 9 (idle_scheduler\<lparr>users := {7}\<rparr>)) = []"
  using unregister_effect [of 7 9 "idle_scheduler\<lparr>users := {7}\<rparr>"]
  by (simp add: idle_scheduler_def Scheduler_init_def)

text \<open>
  The claim as stated fails: for a user that is not in the users set, \<open>last_use\<close> is not
  set to the current time.
\<close>

theorem unregister_absent_user_keeps_last_use:
  "7 \<notin> users idle_scheduler \<and> last_use idle_scheduler = 5 \<and>
   last_use (unregister 7 9 idle_scheduler) = 5 \<and>
   last_use (unregister 7 9 idle_scheduler) \<noteq> 9"
  by (simp add: unregister_def idle_scheduler_def Scheduler_init_def)

section \<open>Properties of process_batch\<close>

lemma from_calls_calls: "from_calls cs = Inr b \<Longrightarrow> calls b = cs"
  by (auto simp: from_calls_def Let_def split: if_splits sum.splits)

lemma routed_errors:
  assumes "routed cs qs qs'"
  shows "filter is_error (qs' q) = filter is_error (qs q)"
proof -
  from assms obtain ms where ms: "qs' q = qs q @ ms"
    "\<forall>m\<in>set ms. \<exists>i<length cs. result_queue (cs ! i) = q \<and> fst m = TOKEN \<and> token_of (cs ! i) (snd m)"
    unfolding routed_def by blast
  have "\<not> is_error m" if "m \<in> set ms" for m
  proof -
    from ms(2) that obtain i where "token_of (cs ! i) (snd m)" by blast
    then show ?thesis
      by (cases m; cases "snd m") (auto simp: token_of_def)
  qed
  then have "filter is_error ms = []" by (simp add: filter_empty_conv)
  with ms(1) show ?thesis by simp
qed

lemma run_steps_routed:
  "routed (calls (ts_batch st)) qs (snd (run_steps st steps qs))"
proof (induction steps arbitrary: qs)
  case Nil
  show ?case by (simp add: routed_refl)
next
  case (Cons step steps)
  obtain ids scores where step: "step = (ids, scores)" by (cases step)
  obtain r qs' where one: "TokenStreamer_log_token st ids scores False qs = (r, qs')"
    by (cases "TokenStreamer_log_token st ids scores False qs")
  with token_log_routed [of st qs ids scores False]
  have r1: "routed (calls (ts_batch st)) qs qs'" by simp
  show ?case
  proof (cases r)
    case None
    with step one Cons.IH [of qs'] r1 show ?thesis
      by (auto intro: routed_trans)
  next
    case (Some e)
    with step one r1 show ?thesis by simp
  qed
qed

lemma batch_body_routed: "routed batch qs (snd (batch_body model batch qs))"
proof (cases "from_calls batch")
  case (Inl e)
  then show ?thesis by (simp add: batch_body_def routed_refl)
next
  case (Inr b)
  then have c: "calls b = batch" by (rule from_calls_calls)
  show ?thesis
  proof (cases "is_score b")
    case True
    with Inr c score_log_routed [of b qs] show ?thesis
      by (auto simp: batch_body_def routed_refl split: sum.splits)
  next
    case False
    let ?st = "\<lparr>ts_batch = b, ts_cancels = cancellable model, ts_eos_token_id = eos_token_id model\<rparr>"
    have cs: "calls (ts_batch ?st) = batch" using c by simp
    obtain r qs1 where steps: "run_steps ?st (fst (generate model b)) qs = (r, qs1)"
      by (cases "run_steps ?st (fst (generate model b)) qs")
    with run_steps_routed [of ?st qs "fst (generate model b)"] cs
    have r1: "routed batch qs qs1" by simp
    have r2: "routed batch qs1 (snd (TokenStreamer_log_token ?st sq sc True qs1))" for sq sc
      using token_log_routed [of ?st qs1 sq sc True] cs by simp
    show ?thesis
      using Inr False steps r1 r2
      by (auto simp: batch_body_def Let_def split: option.splits sum.splits prod.splits
          intro: routed_trans)
  qed
qed

lemma fold_call_error:
  "fold (\<lambda>c. call_error c m) cs qs q = qs q @ error_payloads m cs q"
  by (induction cs arbitrary: qs) (simp_all add: call_error_def enqueue_def error_payloads_def)

lemma filter_error_payloads: "filter is_error (error_payloads m cs q) = error_payloads m cs q"
  by (induction cs) (simp_all add: error_payloads_def)

lemma run_batch_error:
  assumes "fst (batch_body model batch qs) = Some e"
  shows "filter is_error (run_batch model batch qs q) =
         filter is_error (qs q) @ error_payloads (error_text e) batch q"
proof -
  obtain qs' where b: "batch_body model batch qs = (Some e, qs')"
    using assms by (cases "batch_body model batch qs") simp
  with batch_body_routed [of batch qs model] have "routed batch qs qs'" by simp
  then have keep: "filter is_error (qs' q) = filter is_error (qs q)" by (rule routed_errors)
  have "run_batch model batch qs = fold (\<lambda>c. call_error c (error_text e)) batch qs'"
    using b by (cases e) (simp_all add: run_batch_def error_text_def)
  then show ?thesis
    by (simp add: fold_call_error filter_error_payloads keep)
qed

lemma backend_raises_body:
  assumes "from_calls batch = Inr b" and "backend_raises model b qs = Some e"
  shows "fst (batch_body model batch qs) = Some e"
  using assms
  by (auto simp: batch_body_def backend_raises_def Let_def
      split: if_splits sum.splits prod.splits option.splits)

lemma batches_succeed:
  assumes "0 < mbs"
  shows "\<exists>bs. fst (batches repr window mbs s) = Inr bs"
proof -
  from sequence_split [OF assms grouped_by_mode [of repr "take window (queue s)"]]
  obtain bss where
    "sequence (map (\<lambda>(mode, b). split_batch mbs b) (group_by_mode repr (take window (queue s)))) = Inr bss"
    by blast
  then show ?thesis by (simp add: batches_def drain_def Let_def)
qed

lemma run_batch_appends: "\<exists>ms. run_batch model batch qs q = qs q @ ms"
proof -
  obtain r qs' where b: "batch_body model batch qs = (r, qs')"
    by (cases "batch_body model batch qs")
  with batch_body_routed [of batch qs model] have "routed batch qs qs'" by simp
  then obtain ms where ms: "qs' q = qs q @ ms" unfolding routed_def by blast
  show ?thesis
  proof (cases r)
    case None
    with b ms show ?thesis by (simp add: run_batch_def)
  next
    case (Some e)
    have "run_batch model batch qs = fold (\<lambda>c. call_error c (error_text e)) batch qs'"
      using b Some by (cases e) (simp_all add: run_batch_def error_text_def)
    then show ?thesis using ms by (simp add: fold_call_error)
  qed
qed

lemma fold_run_batch_appends: "\<exists>ms. fold (run_batch model) bs qs q = qs q @ ms"
proof (induction bs arbitrary: qs)
  case Nil
  show ?case by simp
next
  case (Cons b bs)
  from Cons.IH [of "run_batch model b qs"] obtain ms where
    "fold (run_batch model) bs (run_batch model b qs) q = run_batch model b qs q @ ms" by blast
  moreover from run_batch_appends [of model b qs q] obtain ms' where
    "run_batch model b qs q = qs q @ ms'" by blast
  ultimately show ?case by simp
qed

text \<open>
  \<^bold>\<open>C7.\<close> \<open>process_batch\<close> runs the batches that \<open>batches\<close> returns, in order, each on
  the queues the one before left. When the backend call of one of them raises \<open>e\<close> (from
  \<open>score\<close>, from \<open>generate\<close>, or from the streamer inside \<open>generate\<close>), the error
  payloads on every queue after that batch are the ones that were there, followed by
  exactly one for each call of the batch that has this queue, under that call's stream
  id; its text is \<^verbatim>\<open>lmtp.cancelled\<close> when \<open>e\<close> is the cancellation signal and
  \<^verbatim>\<open>failed to generate tokens '<str(e)>'\<close> otherwise. \<open>process_batch\<close> then runs the
  batches after it on these queues and returns without an exception; what it leaves on a
  queue starts with what the failed batch left there.
\<close>

theorem backend_failure_confined:
  assumes bt: "batches repr window (max_batch_size model) s = (Inr (pre @ batch # post), s')"
      and fc: "from_calls batch = Inr b"
      and br: "backend_raises model b (fold (run_batch model) pre qs) = Some e"
  shows "process_batch repr window model s qs =
           (None, s',
            fold (run_batch model) post (run_batch model batch (fold (run_batch model) pre qs))) \<and>
         filter is_error (run_batch model batch (fold (run_batch model) pre qs) q) =
           filter is_error (fold (run_batch model) pre qs q) @
           map (\<lambda>c. (TOKEN, Error (stream_id c) (error_text e)))
             (filter (\<lambda>c. result_queue c = q) batch) \<and>
         error_text e =
           (case e of InterruptedError m \<Rightarrow> ''lmtp.cancelled''
            | _ \<Rightarrow> ''failed to generate tokens '' @ [CHR 0x27] @ exn_str e @ [CHR 0x27]) \<and>
         (\<exists>ms. snd (snd (process_batch repr window model s qs)) q =
                 run_batch model batch (fold (run_batch model) pre qs) q @ ms)"
proof -
  have 0: "process_batch repr window model s qs =
           (None, s',
            fold (run_batch model) post (run_batch model batch (fold (run_batch model) pre qs)))"
    using bt by (simp add: process_batch_def)
  have 1: "filter is_error (run_batch model batch (fold (run_batch model) pre qs) q) =
           filter is_error (fold (run_batch model) pre qs q) @
           map (\<lambda>c. (TOKEN, Error (stream_id c) (error_text e)))
             (filter (\<lambda>c. result_queue c = q) batch)"
    using run_batch_error [OF backend_raises_body [OF fc br], of q]
    by (simp add: error_payloads_def)
  have 2: "error_text e =
           (case e of InterruptedError m \<Rightarrow> ''lmtp.cancelled''
            | _ \<Rightarrow> ''failed to generate tokens '' @ [CHR 0x27] @ exn_str e @ [CHR 0x27])"
    by (cases e) (simp_all add: error_text_def failure_text_def)
  have 3: "\<exists>ms. snd (snd (process_batch repr window model s qs)) q =
                 run_batch model batch (fold (run_batch model) pre qs) q @ ms"
    unfolding 0 using fold_run_batch_appends [of model post _ q] by simp
  show ?thesis using 0 1 2 3 by blast
qed

lemma from_calls_gen_batch: "from_calls [call_a, call_b] = Inr gen_batch"
  by (simp add: from_calls_def call_a_def call_b_def gen_batch_def dict_get_def py_max_def
      py_gt_def is_score_call_def)

lemma from_calls_cancelled_batch: "from_calls [cancelled_call] = Inr cancelled_batch"
  by (simp add: from_calls_def cancelled_call_def cancelled_batch_def dict_get_def py_max_def
      py_gt_def is_score_call_def)

lemma batches_example:
  "batches (\<lambda>v. ''0.0'') 3 8 (put score_b (put call_b (put call_a idle_scheduler))) =
     (Inr ([] @ [call_a, call_b] # [[score_b]]), idle_scheduler)"
  by (simp add: batches_def drain_def put_def idle_scheduler_def Scheduler_init_def
      group_by_mode_def dict_get_def split_batch_def call_a_def call_b_def score_b_def
      generation_mode_def is_score_call_def setdefault_def Let_def)


lemma run_score_b:
  "run_batch failing_backend [score_b] qs = call_error score_b (failure_text (PyException ''out of memory'')) qs"
  by (simp add: run_batch_def batch_body_def from_calls_def score_b_def failing_backend_def
      dict_get_def py_max_def py_gt_def is_score_call_def Let_def)

lemma batches_cancelled_example:
  "batches (\<lambda>v. ''0.0'') 1 8 (put cancelled_call idle_scheduler) =
     (Inr ([] @ [cancelled_call] # []), idle_scheduler)"
  by (simp add: batches_def drain_def put_def idle_scheduler_def Scheduler_init_def
      group_by_mode_def dict_get_def split_batch_def cancelled_call_def)

theorem backend_failure_confined_witness:
  "fst (process_batch (\<lambda>v. ''0.0'') 3 failing_backend
          (put score_b (put call_b (put call_a idle_scheduler))) no_messages) = None \<and>
   fst (snd (process_batch (\<lambda>v. ''0.0'') 3 failing_backend
          (put score_b (put call_b (put call_a idle_scheduler))) no_messages)) = idle_scheduler \<and>
   filter is_error (snd (snd (process_batch (\<lambda>v. ''0.0'') 3 failing_backend
          (put score_b (put call_b (put call_a idle_scheduler))) no_messages)) 0) =
     [(TOKEN, Error (VInt 1) (''failed to generate tokens '' @ [CHR 0x27] @ ''out of memory'' @ [CHR 0x27])),
      (TOKEN, Error (VInt 2) (''failed to generate tokens '' @ [CHR 0x27] @ ''out of memory'' @ [CHR 0x27]))] \<and>
   filter is_error (snd (snd (process_batch (\<lambda>v. ''0.0'') 3 failing_backend
          (put score_b (put call_b (put call_a idle_scheduler))) no_messages)) 1) =
     [(TOKEN, Error (VInt 2) (''failed to generate tokens '' @ [CHR 0x27] @ ''out of memory'' @ [CHR 0x27]))] \<and>
   filter is_error (snd (snd (process_batch (\<lambda>v. ''0.0'') 1 stepping_backend
          (put cancelled_call idle_scheduler) no_messages)) 0) =
     [(TOKEN, Error (VInt 3) ''lmtp.cancelled'')]"
proof -
  have r1: "backend_raises failing_backend gen_batch (fold (run_batch failing_backend) [] no_messages) =
              Some (PyException ''out of memory'')"
    by (simp add: backend_raises_def failing_backend_def gen_batch_def)
  have r2: "backend_raises stepping_backend cancelled_batch
              (fold (run_batch stepping_backend) [] no_messages) =
              Some (InterruptedError ''inference calls cancelled'')"
    by (simp add: backend_raises_def stepping_backend_def cancelled_batch_def cancelled_call_def
        TokenStreamer_log_token_def last_column_def py_index_def dict_get_def py_max_def
        batch_cancelled_def)
  have m1: "max_batch_size failing_backend = 8" by (simp add: failing_backend_def)
  have m2: "max_batch_size stepping_backend = 8" by (simp add: stepping_backend_def)
  note a = backend_failure_confined [of "\<lambda>v. ''0.0''" 3 failing_backend
      "put score_b (put call_b (put call_a idle_scheduler))" "[]" "[call_a, call_b]" "[[score_b]]"
      idle_scheduler gen_batch no_messages "PyException ''out of memory''",
      unfolded m1, OF batches_example from_calls_gen_batch r1]
  note c = backend_failure_confined [of "\<lambda>v. ''0.0''" 1 stepping_backend
      "put cancelled_call idle_scheduler" "[]" "[cancelled_call]" "[]"
      idle_scheduler cancelled_batch no_messages "InterruptedError ''inference calls cancelled''",
      unfolded m2, OF batches_cancelled_example from_calls_cancelled_batch r2]
  have e: "filter is_error (call_error score_b t X q) =
             filter is_error (X q) @ (if q = 0 then [(TOKEN, Error (VInt 2) t)] else [])" for t X q
    by (simp add: call_error_def enqueue_def score_b_def)
  from a [of 0] a [of 1] c [of 0] show ?thesis
    by (simp add: run_score_b e no_messages_def call_a_def call_b_def cancelled_call_def
        failure_text_def)
qed
section \<open>Properties of the encoding of model arguments\<close>











































section \<open>Properties of the registry\<close>

lemma sync_registry_eval:
  "sync_registry enc =
     [((''a'', enc (Some [])), (Scheduler_init ''a'' (Some []) True 1)\<lparr>last_use := 3\<rparr>),
      ((''b'', enc (Some [])), (Scheduler_init ''b'' (Some []) True 2)\<lparr>last_use := 3\<rparr>)]"
  by (simp add: sync_registry_def instance_def gc_def dealloc_def Scheduler_init_def
      unregister_def Let_def)

text \<open>
  With fewer than \<open>n\<close> schedulers loaded \<open>gc(n)\<close> leaves the registry as it is. On a
  consistent registry of threaded schedulers, \<open>gc(n)\<close> with at least \<open>n\<close> schedulers
  loaded raises nothing and leaves exactly the schedulers that have users.
\<close>

lemma gc_below_threshold: "int (length insts) < n \<Longrightarrow> gc enc n insts = (None, insts)"
  by (simp add: gc_def Let_def)

lemma consistent_delete:
  "registry_consistent enc insts \<Longrightarrow> registry_consistent enc (AList.delete k insts)"
  by (auto simp: registry_consistent_def AList.delete_eq list_all_iff distinct_map_filter)

lemma dealloc_threaded:
  assumes c: "registry_consistent enc insts" and m: "map_of insts k = Some s"
  shows "dealloc enc s insts = (None, AList.delete k insts)"
proof -
  from m have "(k, s) \<in> set insts" by (rule map_of_SomeD)
  with c have "k = (model_identifier s, enc (Some (model_args s)))" "\<not> sync s"
    by (auto simp: registry_consistent_def list_all_iff)
  with m show ?thesis by (simp add: dealloc_def Let_def)
qed

lemma gc_loop_threaded:
  "registry_consistent enc insts \<Longrightarrow> distinct ks \<Longrightarrow> set ks \<subseteq> fst ` set insts \<Longrightarrow>
   gc_loop enc ks insts = (None, filter (\<lambda>(k, s). k \<notin> set ks) insts)"
proof (induction ks arbitrary: insts)
  case Nil
  show ?case by simp
next
  case (Cons k ks)
  from Cons.prems(3) have "k \<in> fst ` set insts" by simp
  then obtain s where m: "map_of insts k = Some s"
    by (metis weak_map_of_SomeI imageE prod.collapse)
  have d: "dealloc enc s insts = (None, AList.delete k insts)"
    using dealloc_threaded [OF Cons.prems(1) m] .
  have sub: "set ks \<subseteq> fst ` set (AList.delete k insts)"
  proof
    fix x assume x: "x \<in> set ks"
    with Cons.prems(3) obtain y where y: "y \<in> set insts" "fst y = x" by auto
    from x Cons.prems(2) have "x \<noteq> k" by auto
    with y have "y \<in> set (AList.delete k insts)"
      by (cases y) (auto simp: AList.delete_eq)
    with y(2) show "x \<in> fst ` set (AList.delete k insts)" by force
  qed
  have "gc_loop enc ks (AList.delete k insts) =
          (None, filter (\<lambda>(k', s). k' \<notin> set ks) (AList.delete k insts))"
    using Cons.IH [OF consistent_delete [OF Cons.prems(1)] _ sub] Cons.prems(2) by simp
  moreover have "filter (\<lambda>(k', s). k' \<notin> set ks) (AList.delete k insts) =
                 filter (\<lambda>(k', s). k' \<notin> set (k # ks)) insts"
    by (auto simp: AList.delete_eq intro: filter_cong)
  ultimately show ?case using m d by simp
qed

lemma gc_threaded:
  assumes c: "registry_consistent enc insts" and n: "n \<le> int (length insts)"
  shows "gc enc n insts = (None, filter (\<lambda>(k, s). users s \<noteq> {}) insts)"
proof -
  let ?ks = "map fst (filter (\<lambda>(k, v). users v = {}) insts)"
  have dk: "distinct (map fst insts)" using c by (simp add: registry_consistent_def)
  have d: "distinct ?ks" using dk by (rule distinct_map_filter)
  have sub: "set ?ks \<subseteq> fst ` set insts" by auto
  have "filter (\<lambda>(k, s). k \<notin> set ?ks) insts = filter (\<lambda>(k, s). users s \<noteq> {}) insts"
  proof (rule filter_cong [OF refl])
    fix x assume x: "x \<in> set insts"
    obtain k s where ks: "x = (k, s)" by (cases x)
    have "k \<in> set ?ks \<longleftrightarrow> users s = {}"
    proof
      assume "k \<in> set ?ks"
      then obtain s' where "(k, s') \<in> set insts" "users s' = {}" by auto
      moreover have "s' = s" using dk x ks calculation(1) by (meson eq_key_imp_eq_value)
      ultimately show "users s = {}" by simp
    next
      assume "users s = {}"
      with x ks show "k \<in> set ?ks" by force
    qed
    then show "(case x of (k, s) \<Rightarrow> k \<notin> set ?ks) = (case x of (k, s) \<Rightarrow> users s \<noteq> {})"
      using ks by simp
  qed
  with gc_loop_threaded [OF c d sub] n show ?thesis by (simp add: gc_def Let_def)
qed

text \<open>
  \<^bold>\<open>C8.\<close> The registry holds two schedulers built with \<^verbatim>\<open>sync=True\<close>, both with an empty
  users set. \<open>gc(0)\<close> pops the first and then raises \<^verbatim>\<open>AttributeError\<close>, at the join of
  a worker thread that such a scheduler does not have; the second scheduler stays in the
  registry with its empty users set.
\<close>

theorem gc_stops_at_sync_scheduler:
  "map fst (sync_registry enc) = [(''a'', enc (Some [])), (''b'', enc (Some []))] \<and>
   map (\<lambda>(k, s). users s) (sync_registry enc) = [{}, {}] \<and>
   map (\<lambda>(k, s). sync s) (sync_registry enc) = [True, True] \<and>
   fst (gc enc 0 (sync_registry enc)) =
     Some (AttributeError ''Scheduler object has no attribute worker_thread'') \<and>
   map fst (snd (gc enc 0 (sync_registry enc))) = [(''b'', enc (Some []))] \<and>
   map (\<lambda>(k, s). users s) (snd (gc enc 0 (sync_registry enc))) = [{}]"
  by (simp add: sync_registry_eval gc_def dealloc_def Scheduler_init_def Let_def)
section \<open>Properties of scoring\<close>












end
